theory Spec2Isabelle
  imports Complex_Main
begin

section \<open>Content catalog (services/generator/post-generator.ts)\<close>

text \<open>
  \<open>TEMPLATE_TOPICS\<close> is an object literal; \<open>Object.keys\<close> enumerates its string keys in
  insertion order, so the model is the list of keys in source order. The display names
  (the values) are only tested for truthiness by the generator and are all non-empty.
\<close>

definition TEMPLATE_TOPICS :: "string list" where
  "TEMPLATE_TOPICS =
    [''battle_wisdom'', ''war_experience'', ''weapon_knowledge'', ''combat_psychology'',
     ''tactical_thinking'', ''warrior_code'', ''battlefield_leadership'', ''survival_in_combat'',
     ''personal_philosophy'', ''death_mortality'', ''redemption_change'', ''inner_struggle'',
     ''wisdom_experience'', ''life_advice'', ''purpose_meaning'', ''fate_choice'',
     ''friendship_loyalty'', ''trust_betrayal'', ''leadership'', ''family_bonds'',
     ''romance'', ''social_dynamics'',
     ''northern_values'', ''cultural_traditions'', ''regional_pride'', ''cultural_differences'',
     ''modern_life'', ''technology_change'', ''social_media'', ''work_labor'',
     ''humor_wit'', ''everyday_wisdom'']"

text \<open>
  \<open>TOPIC_WEIGHTS\<close>, as \<open>Object.entries\<close> enumerates it: an association list in insertion
  order. The decimal literals of the source are read as exact rationals.
\<close>

definition TOPIC_WEIGHTS :: "(string \<times> rat) list" where
  "TOPIC_WEIGHTS =
    [(''battle_wisdom'', 8/100), (''personal_philosophy'', 8/100),
     (''friendship_loyalty'', 8/100), (''inner_struggle'', 8/100), (''modern_life'', 8/100),
     (''war_experience'', 7/100), (''life_advice'', 7/100), (''leadership'', 7/100),
     (''northern_values'', 7/100), (''humor_wit'', 7/100),
     (''weapon_knowledge'', 5/100), (''romance'', 5/100), (''technology_change'', 5/100),
     (''cultural_traditions'', 5/100), (''everyday_wisdom'', 5/100),
     (''combat_psychology'', 3/100), (''tactical_thinking'', 3/100), (''warrior_code'', 3/100),
     (''battlefield_leadership'', 3/100), (''survival_in_combat'', 3/100),
     (''death_mortality'', 3/100), (''redemption_change'', 3/100),
     (''wisdom_experience'', 3/100), (''purpose_meaning'', 3/100), (''fate_choice'', 3/100),
     (''trust_betrayal'', 3/100), (''family_bonds'', 3/100), (''social_dynamics'', 3/100),
     (''regional_pride'', 3/100), (''cultural_differences'', 3/100), (''social_media'', 3/100),
     (''work_labor'', 3/100)]"

text \<open>
  The \<open>for\<close> loop of \<open>getRandomTopic\<close>: \<open>cumulative += weight\<close>, then
  \<open>if (random <= cumulative) return topic\<close>. \<open>None\<close> is the loop running off the end
  of the table. The number type is left open (anything with \<open>+\<close> and \<open>\<le>\<close>), so the
  walk is the same function whatever arithmetic adds the weights.
\<close>

fun weight_walk :: "(string \<times> 'a) list \<Rightarrow> 'a \<Rightarrow> 'a::{plus,ord} \<Rightarrow> string option" where
  "weight_walk [] random cumulative = None"
| "weight_walk ((topic, weight) # rest) random cumulative =
     (if random \<le> cumulative + weight then Some topic
      else weight_walk rest random (cumulative + weight))"

text \<open>
  The fallback after the loop:
  \<open>topicKeys.length > 0 ? topicKeys[0] || 'battle_wisdom' : 'battle_wisdom'\<close>.
  An empty first key is falsy and gives the literal as well.
\<close>

definition topic_fallback :: "string list \<Rightarrow> string" where
  "topic_fallback topicKeys =
     (case topicKeys of
        [] \<Rightarrow> ''battle_wisdom''
      | k # _ \<Rightarrow> if k = [] then ''battle_wisdom'' else k)"

text \<open>
  \<open>getRandomTopic\<close> with the two tables and the value of \<open>Math.random()\<close> as arguments.
\<close>

definition getRandomTopic_on ::
  "(string \<times> 'a) list \<Rightarrow> string list \<Rightarrow> 'a::{zero,plus,ord} \<Rightarrow> string" where
  "getRandomTopic_on weights topicKeys random =
     (case weight_walk weights random 0 of
        Some topic \<Rightarrow> topic
      | None \<Rightarrow> topic_fallback topicKeys)"

definition getRandomTopic :: "rat \<Rightarrow> string" where
  "getRandomTopic random = getRandomTopic_on TOPIC_WEIGHTS TEMPLATE_TOPICS random"

text \<open>
  The cumulative weight after entry \<open>i\<close> (counted from 0), added up from the left as the
  loop does.
\<close>

definition cumulative_weight :: "(string \<times> 'a) list \<Rightarrow> 'a \<Rightarrow> nat \<Rightarrow> 'a::plus" where
  "cumulative_weight weights start i = foldl (+) start (map snd (take (Suc i) weights))"


section \<open>Template expander (services/generator/post-generator.ts)\<close>

text \<open>
  \<open>PostGenerationResult\<close> of shared/types. Strings are lists of characters; the seed
  sentences of the source are ASCII, where a character is one UTF-16 code unit and
  \<open>length\<close> is JavaScript's \<open>.length\<close>.
\<close>

record PostGenerationResult =
  r_content :: string
  r_category :: "string option"
  tokens_used :: int
  cost :: rat
  model :: string

datatype error = Error string | DatabaseError string

text \<open>\<open>String.prototype.includes\<close>: the argument occurs as a contiguous substring.\<close>

fun is_prefix :: "string \<Rightarrow> string \<Rightarrow> bool" where
  "is_prefix [] s = True"
| "is_prefix (c # cs) [] = False"
| "is_prefix (c # cs) (d # ds) = (c = d \<and> is_prefix cs ds)"

fun str_includes :: "string \<Rightarrow> string \<Rightarrow> bool" where
  "str_includes [] sub = (sub = [])"
| "str_includes (c # cs) sub = (is_prefix sub (c # cs) \<or> str_includes cs sub)"

text \<open>
  \<open>s.replace(/^"|"$/g, '')\<close>: one double quote is removed at the start if there is one,
  and one at the end of what remains if there is one.
\<close>

definition strip_quotes :: "string \<Rightarrow> string" where
  "strip_quotes s =
     (let s1 = (case s of [] \<Rightarrow> [] | c # cs \<Rightarrow> if c = CHR 0x22 then cs else s)
      in if s1 \<noteq> [] \<and> last s1 = CHR 0x22 then butlast s1 else s1)"

definition default_post :: string where
  "default_post = ''You have to be realistic about these things.''"

text \<open>\<open>createVariations\<close>: the base post, then three fixed sentences per keyword it contains.\<close>

definition createVariations :: "string \<Rightarrow> string list" where
  "createVariations basePost =
     map strip_quotes (filter (\<lambda>post. length post \<le> 280)
       ([basePost]
        @ (if str_includes basePost ''war'' then
             [''War changes everything. Including the men who fight it.'',
              ''War is the great teacher. Unfortunately, the lessons are expensive.'',
              ''In war, you learn what you're really made of.''] else [])
        @ (if str_includes basePost ''battle'' then
             [''Battle reveals the truth about men.'',
              ''In battle, there are no secrets.'',
              ''Battle is the ultimate test of character.''] else [])
        @ (if str_includes basePost ''friend'' then
             [''True friends are rare. Treasure them.'',
              ''Friendship is the only wealth that matters.'',
              ''A friend in need is a friend indeed.''] else [])
        @ (if str_includes basePost ''life'' then
             [''Life is what you make of it.'',
              ''Life teaches hard lessons. Learn them well.'',
              ''Life is too short to waste on foolishness.''] else [])
        @ (if str_includes basePost ''North'' then
             [''The North teaches hard lessons.'',
              ''Northern wisdom is earned, not given.'',
              ''The North doesn't forgive weakness.''] else [])
        @ (if str_includes basePost ''Bloody-Nine'' then
             [''The Bloody-Nine is always there, waiting.'',
              ''Sometimes the monster is stronger than the man.'',
              ''The Bloody-Nine doesn't ask permission.''] else [])))"

text \<open>
  \<open>generateVariation\<close>. \<open>x || y\<close> on strings takes \<open>y\<close> when \<open>x\<close> is undefined or
  empty; an index into an empty \<open>variations\<close> array is \<open>NaN\<close> and reads undefined.
\<close>

definition generateVariation :: "string list \<Rightarrow> nat \<Rightarrow> string" where
  "generateVariation basePosts index =
     (if length basePosts = 0 then default_post
      else
        let b = basePosts ! (index mod length basePosts);
            basePost = (if b = [] then default_post else b);
            variations = createVariations basePost;
            variationIndex = index div length basePosts;
            result =
              (if variations = [] then basePost
               else let v = variations ! (variationIndex mod length variations)
                    in if v = [] then basePost else v)
        in strip_quotes result)"

text \<open>
  \<open>getTopicPosts\<close> looks the topic up in a literal table of ten seed sentences for each
  of the 32 topics and returns \<open>[]\<close> for a missing key. The table is pure data; it is an
  argument here (an association list), so every result below holds whatever sentences
  it contains.
\<close>

definition getTopicPosts :: "(string \<times> string list) list \<Rightarrow> string \<Rightarrow> string list" where
  "getTopicPosts topicPosts topic =
     (case map_of topicPosts topic of Some sentences \<Rightarrow> sentences | None \<Rightarrow> [])"

text \<open>
  \<open>generateTopicPosts\<close>: throws on a topic that is no key of \<open>TEMPLATE_TOPICS\<close>
  (\<open>if (!topicName)\<close>; names that every JavaScript object inherits, such as
  \<open>constructor\<close>, are left out of the model: the callers pass keys of the table).
\<close>

definition generateTopicPosts ::
  "(string \<times> string list) list \<Rightarrow> string \<Rightarrow> nat \<Rightarrow> error + PostGenerationResult list" where
  "generateTopicPosts topicPosts topic count =
     (if topic \<notin> set TEMPLATE_TOPICS then Inl (Error (''Unknown topic: '' @ topic))
      else Inr (map (\<lambda>i. \<lparr> r_content = generateVariation (getTopicPosts topicPosts topic) i,
                           r_category = Some topic,
                           tokens_used = 50,
                           cost = 1 / 1000,
                           model = ''template-bot-local'' \<rparr>) [0..<count]))"

text \<open>\<open>generateAllPosts\<close>: 63 posts for every key of \<open>TEMPLATE_TOPICS\<close>, concatenated.\<close>

fun generateAllPosts_loop ::
  "(string \<times> string list) list \<Rightarrow> string list \<Rightarrow> PostGenerationResult list
     \<Rightarrow> error + PostGenerationResult list" where
  "generateAllPosts_loop topicPosts [] allPosts = Inr allPosts"
| "generateAllPosts_loop topicPosts (topic # topics) allPosts =
     (case generateTopicPosts topicPosts topic 63 of
        Inl e \<Rightarrow> Inl e
      | Inr ps \<Rightarrow> generateAllPosts_loop topicPosts topics (allPosts @ ps))"

definition generateAllPosts ::
  "(string \<times> string list) list \<Rightarrow> error + PostGenerationResult list" where
  "generateAllPosts topicPosts = generateAllPosts_loop topicPosts TEMPLATE_TOPICS []"

section \<open>Content fingerprint\<close>

text \<open>
  \<open>toLowerCase\<close> and \<open>trim\<close> on ASCII text: the letters A to Z are folded, and the
  white space removed at both ends is tab, line feed, vertical tab, form feed, carriage
  return and space.
\<close>

definition lower_char :: "char \<Rightarrow> char" where
  "lower_char c =
     (case map_of (zip ''ABCDEFGHIJKLMNOPQRSTUVWXYZ'' ''abcdefghijklmnopqrstuvwxyz'') c of
        Some l \<Rightarrow> l
      | None \<Rightarrow> c)"

definition toLowerCase :: "string \<Rightarrow> string" where
  "toLowerCase s = map lower_char s"

definition is_space :: "char \<Rightarrow> bool" where
  "is_space c = (c \<in> set [CHR 0x09, CHR 0x0A, CHR 0x0B, CHR 0x0C, CHR 0x0D, CHR 0x20])"

definition trim :: "string \<Rightarrow> string" where
  "trim s = rev (dropWhile is_space (rev (dropWhile is_space s)))"

text \<open>
  The two \<open>generateContentHash\<close> functions of the source. \<open>createHash('sha256')\<close> of
  Node's crypto library is the argument \<open>sha256\<close>: the hex digest of a string.
  The post manager hashes \<open>content.toLowerCase().trim()\<close>; the generator (which the
  database seeder calls) hashes \<open>content\<close> as it is.
\<close>

definition PostManager_generateContentHash :: "(string \<Rightarrow> string) \<Rightarrow> string \<Rightarrow> string" where
  "PostManager_generateContentHash sha256 content = sha256 (trim (toLowerCase content))"

definition PostGenerator_generateContentHash :: "(string \<Rightarrow> string) \<Rightarrow> string \<Rightarrow> string" where
  "PostGenerator_generateContentHash sha256 content = sha256 content"


section \<open>Post store (shared/database/schema.ts, services/post-manager.ts)\<close>

text \<open>
  The three tables the posting cycle reads and writes, one record per row, columns as in
  \<open>DATABASE_SCHEMA\<close>. A nullable column is an option. \<open>CURRENT_TIMESTAMP\<close> is a natural
  number (seconds). The autoincrement keys of \<open>bot_stats\<close> and \<open>post_logs\<close> are the
  positions of the rows in their lists.
\<close>

type_synonym timestamp = nat

record post =
  p_id :: nat
  content :: string
  bot_id :: string
  category :: "string option"
  used :: bool
  used_at :: "timestamp option"
  created_at :: timestamp
  updated_at :: timestamp
  generation_cost :: "rat option"
  generation_tokens :: "int option"
  generation_model :: "string option"
  content_hash :: "string option"

record bot_stats_row =
  bs_bot_id :: string
  total_posts :: int
  used_posts :: int
  remaining_posts :: int
  last_post_at :: "timestamp option"
  last_replenishment_at :: "timestamp option"
  total_cost :: rat
  total_tokens :: int
  bs_created_at :: timestamp
  bs_updated_at :: timestamp

record post_log =
  pl_bot_id :: string
  pl_post_id :: "nat option"
  attempt_number :: int
  success :: bool
  tweet_id :: "string option"
  error_message :: "string option"
  response_time_ms :: "nat option"
  pl_created_at :: timestamp

text \<open>
  \<open>posts_seq\<close> is the autoincrement high-water mark of \<open>posts\<close> (SQLite's
  \<open>sqlite_sequence\<close> entry).
\<close>

record db =
  posts :: "post list"
  posts_seq :: nat
  bot_stats :: "bot_stats_row list"
  post_logs :: "post_log list"

subsection \<open>getNextPost\<close>

text \<open>
  \<open>SELECT * FROM posts WHERE bot_id = ? AND used = 0 ORDER BY created_at ASC LIMIT 1\<close>.
  The statement orders by \<open>created_at\<close> alone. The list \<open>posts\<close> holds the rows in
  rowid order (\<open>id INTEGER PRIMARY KEY\<close> is the rowid, and \<open>insert_post\<close> below appends
  a row with a larger one), which is the order SQLite yields rows of equal \<open>created_at\<close>
  in: every index on \<open>posts\<close> ends in the rowid, and the sorter of \<open>ORDER BY\<close> keeps
  the scan order of equal keys. \<open>getNextPost\<close> takes the row among the tied ones as an
  argument \<open>pick\<close>, reduced modulo their number so that every \<open>pick\<close> selects one of
  them, and \<open>pick_first\<close>, the first of the tied rows in table order, is SQLite's. The
  result is the row; the \<open>Post\<close> object of the source is the row without its
  \<open>content_hash\<close>.
\<close>

definition unused_rows :: "db \<Rightarrow> string \<Rightarrow> post list" where
  "unused_rows d botId = filter (\<lambda>p. bot_id p = botId \<and> \<not> used p) (posts d)"

definition oldest_unused :: "db \<Rightarrow> string \<Rightarrow> post list" where
  "oldest_unused d botId =
     filter (\<lambda>p. list_all (\<lambda>q. created_at p \<le> created_at q) (unused_rows d botId))
            (unused_rows d botId)"

definition getNextPost :: "(post list \<Rightarrow> nat) \<Rightarrow> db \<Rightarrow> string \<Rightarrow> post option" where
  "getNextPost pick d botId =
     (case oldest_unused d botId of
        [] \<Rightarrow> None
      | c # cs \<Rightarrow> Some ((c # cs) ! (pick (c # cs) mod length (c # cs))))"

definition pick_first :: "post list \<Rightarrow> nat" where
  "pick_first rows = 0"

text \<open>The rows of the table are in rowid order.\<close>

definition rowid_order :: "db \<Rightarrow> bool" where
  "rowid_order d = sorted_wrt (<) (map p_id (posts d))"

subsection \<open>markPostAsUsed and the triggers on posts\<close>

text \<open>
  The trigger \<open>update_bot_stats_on_post_used\<close> runs once for each updated row with
  \<open>NEW.used = 1 AND OLD.used = 0\<close> and changes the \<open>bot_stats\<close> rows of that bot.
\<close>

definition update_bot_stats_on_post_used ::
  "string \<Rightarrow> timestamp \<Rightarrow> bot_stats_row list \<Rightarrow> bot_stats_row list" where
  "update_bot_stats_on_post_used botId now stats =
     map (\<lambda>s. if bs_bot_id s = botId
              then s\<lparr> used_posts := used_posts s + 1,
                      remaining_posts := remaining_posts s - 1,
                      last_post_at := Some now,
                      bs_updated_at := now \<rparr>
              else s) stats"

text \<open>
  \<open>UPDATE posts SET used = 1, used_at = CURRENT_TIMESTAMP, updated_at = CURRENT_TIMESTAMP
  WHERE id = ? AND bot_id = ?\<close>, followed by the triggers (\<open>update_posts_updated_at\<close>
  writes the same \<open>updated_at\<close> again). The \<open>WHERE\<close> clause does not look at \<open>used\<close>.
\<close>

definition where_id_and_bot :: "nat \<Rightarrow> string \<Rightarrow> post \<Rightarrow> bool" where
  "where_id_and_bot postId botId p = (p_id p = postId \<and> bot_id p = botId)"

definition set_used :: "timestamp \<Rightarrow> post \<Rightarrow> post" where
  "set_used now p = p\<lparr> used := True, used_at := Some now, updated_at := now \<rparr>"

definition markPostAsUsed :: "db \<Rightarrow> string \<Rightarrow> timestamp \<Rightarrow> nat \<Rightarrow> db" where
  "markPostAsUsed d botId now postId =
     d\<lparr> posts := map (\<lambda>p. if where_id_and_bot postId botId p then set_used now p else p) (posts d),
        bot_stats :=
          ((update_bot_stats_on_post_used botId now) ^^
             length (filter (\<lambda>p. where_id_and_bot postId botId p \<and> \<not> used p) (posts d)))
            (bot_stats d) \<rparr>"

subsection \<open>storePosts\<close>

text \<open>
  \<open>INSERT INTO posts (content, bot_id, used, created_at, updated_at, generation_cost,
  generation_tokens, generation_model, content_hash) VALUES (?, ?, 0, now, now, ?, ?, ?, ?)\<close>.
  The column \<open>content_hash TEXT UNIQUE\<close> rejects a hash that any row holds, whatever its
  bot (the table constraint \<open>unique_content_per_bot UNIQUE(bot_id, content_hash)\<close> is
  implied by it). The new \<open>id\<close> is one more than the largest id ever used.
\<close>

definition next_post_id :: "db \<Rightarrow> nat" where
  "next_post_id d = Suc (fold max (map p_id (posts d)) (posts_seq d))"

definition insert_post ::
  "db \<Rightarrow> string \<Rightarrow> timestamp \<Rightarrow> PostGenerationResult \<Rightarrow> string \<Rightarrow> error + db" where
  "insert_post d botId now r contentHash =
     (if list_ex (\<lambda>p. content_hash p = Some contentHash) (posts d)
      then Inl (DatabaseError ''UNIQUE constraint failed: posts.content_hash'')
      else Inr (d\<lparr> posts := posts d @
                       [\<lparr> p_id = next_post_id d,
                          content = r_content r,
                          bot_id = botId,
                          category = None,
                          used = False,
                          used_at = None,
                          created_at = now,
                          updated_at = now,
                          generation_cost = Some (cost r),
                          generation_tokens = Some (tokens_used r),
                          generation_model = Some (model r),
                          content_hash = Some contentHash \<rparr>],
                   posts_seq := next_post_id d \<rparr>))"

text \<open>
  The loop inside the transaction: \<open>SELECT id FROM posts WHERE bot_id = ? AND
  content_hash = ?\<close>, and the insert when no row comes back. A failing statement rejects
  the callback.
\<close>

fun storePosts_loop ::
  "(string \<Rightarrow> string) \<Rightarrow> string \<Rightarrow> timestamp \<Rightarrow> PostGenerationResult list \<Rightarrow> db \<Rightarrow> error + db" where
  "storePosts_loop sha256 botId now [] d = Inr d"
| "storePosts_loop sha256 botId now (r # rs) d =
     (let contentHash = PostManager_generateContentHash sha256 (r_content r) in
      if list_ex (\<lambda>p. bot_id p = botId \<and> content_hash p = Some contentHash) (posts d)
      then storePosts_loop sha256 botId now rs d
      else (case insert_post d botId now r contentHash of
              Inl e \<Rightarrow> Inl e
            | Inr d' \<Rightarrow> storePosts_loop sha256 botId now rs d'))"

text \<open>
  \<open>storePosts\<close>: \<open>db.transaction\<close> commits the loop's writes or rolls all of them back
  and rethrows. \<open>Inl e\<close> is the rejection, with the database as it was before the call.
\<close>

definition storePosts ::
  "(string \<Rightarrow> string) \<Rightarrow> string \<Rightarrow> timestamp \<Rightarrow> db \<Rightarrow> PostGenerationResult list \<Rightarrow> error + db" where
  "storePosts sha256 botId now d batch = storePosts_loop sha256 botId now batch d"

subsection \<open>getPostCount\<close>

text \<open>Two \<open>COUNT(*)\<close> scans; \<open>remaining = total - used\<close>.\<close>

record post_count =
  total :: int
  used_count :: int
  remaining :: int

definition getPostCount :: "db \<Rightarrow> string \<Rightarrow> post_count" where
  "getPostCount d botId =
     (let total = int (length (filter (\<lambda>p. bot_id p = botId) (posts d)));
          used = int (length (filter (\<lambda>p. bot_id p = botId \<and> used p) (posts d)))
      in \<lparr> total = total, used_count = used, remaining = total - used \<rparr>)"


section \<open>Lifecycle manager (bot.ts)\<close>

text \<open>
  The configuration read from \<open>process.env\<close>, after \<open>parseInt\<close>. \<open>BOT_NAME\<close> is
  checked to be set at start-up (\<open>validateEnvironment\<close>).
\<close>

record config =
  BOT_NAME :: string
  MAX_RETRIES :: int
  RETRY_DELAY_MS :: int
  REPLENISHMENT_THRESHOLD :: int

definition default_config :: "string \<Rightarrow> config" where
  "default_config name =
     \<lparr> BOT_NAME = name, MAX_RETRIES = 3, RETRY_DELAY_MS = 5000, REPLENISHMENT_THRESHOLD = 50 \<rparr>"

text \<open>\<open>process.env.BOT_NAME || 'template-bot'\<close>: the empty string is falsy.\<close>

definition botId :: "config \<Rightarrow> string" where
  "botId cfg = (if BOT_NAME cfg = [] then ''template-bot'' else BOT_NAME cfg)"

text \<open>
  What the bot is given from outside:
  \<^item> \<open>sha256\<close>, the digest of Node's crypto library;
  \<^item> \<open>pick\<close>, the row \<open>getNextPost\<close> takes among those that tie (\<open>pick_first\<close>
    for SQLite);
  \<^item> \<open>postTweet\<close>, the publish client: for the number of calls made before and the
    content, either the message of the error it throws (\<open>Inl\<close>) or the tweet id it
    returns (\<open>Inr\<close>), and the milliseconds the call took;
  \<^item> \<open>topicPosts\<close>, the seed sentences of the generator.
\<close>

record services =
  sha256 :: "string \<Rightarrow> string"
  pick :: "post list \<Rightarrow> nat"
  postTweet :: "nat \<Rightarrow> string \<Rightarrow> (string + string) \<times> nat"
  topicPosts :: "(string \<times> string list) list"

text \<open>
  The state a cycle runs in: the database, the wall clock in milliseconds, and three
  traces of what the cycle did: the number of \<open>postTweet\<close> calls, the delays passed to
  \<open>setTimeout\<close> in order, and the number of \<open>generatePosts\<close> calls.
\<close>

record world =
  database :: db
  clock :: nat
  tweet_calls :: nat
  sleeps :: "int list"
  generate_calls :: nat

definition CURRENT_TIMESTAMP :: "world \<Rightarrow> timestamp" where
  "CURRENT_TIMESTAMP w = clock w div 1000"

record post_result =
  pr_success :: bool
  pr_tweet_id :: "string option"
  pr_error :: "string option"

text \<open>
  The two \<open>INSERT INTO post_logs\<close> statements of \<open>postWithRetry\<close>. The one for a
  success names no \<open>attempt_number\<close>, which then takes the column default 1; neither
  names \<open>post_id\<close>. Both store \<open>process.env.BOT_NAME\<close> itself.
\<close>

definition log_success :: "config \<Rightarrow> string \<Rightarrow> nat \<Rightarrow> world \<Rightarrow> world" where
  "log_success cfg tweetId responseTime w =
     w\<lparr> database := (database w)\<lparr> post_logs := post_logs (database w) @
           [\<lparr> pl_bot_id = BOT_NAME cfg, pl_post_id = None, attempt_number = 1,
              success = True, tweet_id = Some tweetId, error_message = None,
              response_time_ms = Some responseTime,
              pl_created_at = CURRENT_TIMESTAMP w \<rparr>] \<rparr> \<rparr>"

definition log_failure :: "config \<Rightarrow> int \<Rightarrow> string \<Rightarrow> world \<Rightarrow> world" where
  "log_failure cfg attempt msg w =
     w\<lparr> database := (database w)\<lparr> post_logs := post_logs (database w) @
           [\<lparr> pl_bot_id = BOT_NAME cfg, pl_post_id = None, attempt_number = attempt,
              success = False, tweet_id = None, error_message = Some msg,
              response_time_ms = None,
              pl_created_at = CURRENT_TIMESTAMP w \<rparr>] \<rparr> \<rparr>"

text \<open>\<open>await new Promise(resolve => setTimeout(resolve, retryDelay))\<close>.\<close>

definition sleep :: "int \<Rightarrow> world \<Rightarrow> world" where
  "sleep delay w = w\<lparr> clock := clock w + nat delay, sleeps := sleeps w @ [delay] \<rparr>"

text \<open>One call of \<open>twitterService.postTweet\<close>, which takes its response time.\<close>

definition call_postTweet :: "services \<Rightarrow> string \<Rightarrow> world \<Rightarrow> (string + string) \<times> nat \<times> world" where
  "call_postTweet sv text w =
     (case postTweet sv (tweet_calls w) text of
        (outcome, responseTime) \<Rightarrow>
          (outcome, responseTime,
           w\<lparr> clock := clock w + responseTime, tweet_calls := Suc (tweet_calls w) \<rparr>))"

text \<open>
  \<open>postWithRetry\<close>: \<open>for (let attempt = 1; attempt <= maxRetries; attempt++)\<close>, with the
  loop variable as an argument.
\<close>

function postWithRetry_loop ::
  "config \<Rightarrow> services \<Rightarrow> string \<Rightarrow> int \<Rightarrow> world \<Rightarrow> post_result \<times> world" where
  "postWithRetry_loop cfg sv text attempt w =
     (if attempt \<le> MAX_RETRIES cfg then
        (case call_postTweet sv text w of
           (Inr tweetId, responseTime, w1) \<Rightarrow>
             (\<lparr> pr_success = True, pr_tweet_id = Some tweetId, pr_error = None \<rparr>,
              log_success cfg tweetId responseTime w1)
         | (Inl msg, responseTime, w1) \<Rightarrow>
             (if attempt = MAX_RETRIES cfg
              then (\<lparr> pr_success = False, pr_tweet_id = None, pr_error = Some msg \<rparr>,
                    log_failure cfg attempt msg w1)
              else postWithRetry_loop cfg sv text (attempt + 1)
                     (sleep (RETRY_DELAY_MS cfg) (log_failure cfg attempt msg w1))))
      else (\<lparr> pr_success = False, pr_tweet_id = None,
               pr_error = Some ''Max retries exceeded'' \<rparr>, w))"
  by pat_completeness auto
termination
  by (relation "measure (\<lambda>(cfg, sv, text, attempt, w). nat (MAX_RETRIES cfg + 1 - attempt))") auto

declare postWithRetry_loop.simps [simp del]

definition postWithRetry :: "config \<Rightarrow> services \<Rightarrow> string \<Rightarrow> world \<Rightarrow> post_result \<times> world" where
  "postWithRetry cfg sv text w = postWithRetry_loop cfg sv text 1 w"

text \<open>
  \<open>generatePosts\<close>: generate, store, then add \<open>posts.length\<close> (the size of the batch)
  to \<open>total_posts\<close> and \<open>remaining_posts\<close>. The first component is the error the
  promise rejects with, if any.
\<close>

definition replenish_bot_stats :: "string \<Rightarrow> timestamp \<Rightarrow> int \<Rightarrow> bot_stats_row list \<Rightarrow> bot_stats_row list" where
  "replenish_bot_stats b now n stats =
     map (\<lambda>s. if bs_bot_id s = b
              then s\<lparr> total_posts := total_posts s + n,
                      remaining_posts := remaining_posts s + n,
                      last_replenishment_at := Some now,
                      bs_updated_at := now \<rparr>
              else s) stats"

definition generatePosts :: "config \<Rightarrow> services \<Rightarrow> world \<Rightarrow> error option \<times> world" where
  "generatePosts cfg sv w0 =
     (let w = w0\<lparr> generate_calls := Suc (generate_calls w0) \<rparr> in
      case generateAllPosts (topicPosts sv) of
        Inl e \<Rightarrow> (Some e, w)
      | Inr batch \<Rightarrow>
          (case storePosts (sha256 sv) (botId cfg) (CURRENT_TIMESTAMP w) (database w) batch of
             Inl e \<Rightarrow> (Some e, w)
           | Inr d \<Rightarrow>
               (None, w\<lparr> database := d\<lparr> bot_stats :=
                   replenish_bot_stats (botId cfg) (CURRENT_TIMESTAMP w) (int (length batch))
                     (bot_stats d) \<rparr> \<rparr>)))"

text \<open>
  \<open>checkAndGeneratePosts\<close>: \<open>if (remainingPosts <= threshold)\<close> it awaits
  \<open>generatePosts\<close>; an error is caught and logged.
\<close>

definition checkAndGeneratePosts :: "config \<Rightarrow> services \<Rightarrow> world \<Rightarrow> world" where
  "checkAndGeneratePosts cfg sv w =
     (if remaining (getPostCount (database w) (botId cfg)) \<le> REPLENISHMENT_THRESHOLD cfg
      then snd (generatePosts cfg sv w)
      else w)"

text \<open>\<open>executePost\<close>, one publish cycle.\<close>

definition executePost :: "config \<Rightarrow> services \<Rightarrow> world \<Rightarrow> error option \<times> world" where
  "executePost cfg sv w =
     (case getNextPost (pick sv) (database w) (botId cfg) of
        None \<Rightarrow> generatePosts cfg sv w
      | Some p \<Rightarrow>
          (case postWithRetry cfg sv (content p) w of
             (result, w1) \<Rightarrow>
               (let w2 = (if pr_success result
                          then w1\<lparr> database :=
                                 markPostAsUsed (database w1) (botId cfg) (CURRENT_TIMESTAMP w1) (p_id p) \<rparr>
                          else w1)
                in (None, checkAndGeneratePosts cfg sv w2))))"

section \<open>Example data\<close>

text \<open>Rows and databases for the concrete scenarios evaluated below.\<close>

definition example_post :: "nat \<Rightarrow> string \<Rightarrow> string \<Rightarrow> timestamp \<Rightarrow> post" where
  "example_post i b c t =
     \<lparr> p_id = i, content = c, bot_id = b, category = None, used = False, used_at = None,
       created_at = t, updated_at = t, generation_cost = None, generation_tokens = None,
       generation_model = None, content_hash = Some c \<rparr>"

definition example_stats :: "string \<Rightarrow> int \<Rightarrow> int \<Rightarrow> bot_stats_row" where
  "example_stats b n u =
     \<lparr> bs_bot_id = b, total_posts = n, used_posts = u, remaining_posts = n - u,
       last_post_at = None, last_replenishment_at = None, total_cost = 0, total_tokens = 0,
       bs_created_at = 0, bs_updated_at = 0 \<rparr>"

definition one_post_db :: db where
  "one_post_db =
     \<lparr> posts = [example_post 1 ''bot-a'' ''Test post one.'' 5], posts_seq = 1,
       bot_stats = [example_stats ''bot-a'' 1 0], post_logs = [] \<rparr>"


definition three_post_db :: db where
  "three_post_db =
     \<lparr> posts = [example_post 1 ''bot-a'' ''first'' 7, example_post 2 ''bot-a'' ''second'' 5,
                example_post 3 ''bot-a'' ''third'' 9],
       posts_seq = 3, bot_stats = [example_stats ''bot-a'' 3 0], post_logs = [] \<rparr>"

text \<open>
  Stand-ins for the outside: a digest that returns its argument, a publish client that
  always returns \<open>ext-123\<close> after 120 ms, one that always throws, and an empty seed
  table.
\<close>

definition stub_digest :: "string \<Rightarrow> string" where
  "stub_digest s = s"

definition succeeding_client :: "nat \<Rightarrow> string \<Rightarrow> (string + string) \<times> nat" where
  "succeeding_client n body = (Inr ''ext-123'', 120)"

definition failing_client :: "nat \<Rightarrow> string \<Rightarrow> (string + string) \<times> nat" where
  "failing_client n body = (Inl ''Rate limit exceeded'', 80)"

definition stub_services :: services where
  "stub_services =
     \<lparr> sha256 = stub_digest, pick = pick_first, postTweet = succeeding_client, topicPosts = [] \<rparr>"

definition failing_services :: services where
  "failing_services =
     \<lparr> sha256 = stub_digest, pick = pick_first, postTweet = failing_client, topicPosts = [] \<rparr>"

definition world_of :: "db \<Rightarrow> world" where
  "world_of d = \<lparr> database = d, clock = 60000, tweet_calls = 0, sleeps = [], generate_calls = 0 \<rparr>"

definition many_posts_db :: "nat \<Rightarrow> db" where
  "many_posts_db n =
     \<lparr> posts = map (\<lambda>i. example_post i ''bot-a'' (replicate i (CHR ''x'')) 5) [1..<Suc n],
       posts_seq = n, bot_stats = [example_stats ''bot-a'' (int n) 0], post_logs = [] \<rparr>"

text \<open>
  Three stored posts and a batch of ten items, three of which repeat a stored post up to
  case and surrounding white space.
\<close>

definition generated :: "string \<Rightarrow> PostGenerationResult" where
  "generated c = \<lparr> r_content = c, r_category = None, tokens_used = 50, cost = 1 / 1000,
                   model = ''template-bot-local'' \<rparr>"

definition three_stored_db :: db where
  "three_stored_db =
     \<lparr> posts = [example_post 1 ''bot-a'' ''post 1'' 5, example_post 2 ''bot-a'' ''post 2'' 5,
                example_post 3 ''bot-a'' ''post 3'' 5],
       posts_seq = 3, bot_stats = [example_stats ''bot-a'' 3 0], post_logs = [] \<rparr>"

definition ten_item_batch :: "PostGenerationResult list" where
  "ten_item_batch =
     map generated [''Post 1'', ''Post 4'', ''Post 5'', '' post 2 '', ''Post 6'', ''Post 7'',
                    ''POST 3'', ''Post 8'', ''Post 9'', ''Post 10'']"

section \<open>Auxiliary notions\<close>

text \<open>A row of the bot holds the fingerprint: what the \<open>SELECT\<close> of \<open>storePosts\<close> tests.\<close>

definition has_hash :: "string \<Rightarrow> string \<Rightarrow> post list \<Rightarrow> bool" where
  "has_hash b h rows = list_ex (\<lambda>p. bot_id p = b \<and> content_hash p = Some h) rows"

text \<open>The columns of a row that \<open>storePosts\<close> looks at.\<close>

definition row_key :: "post \<Rightarrow> string \<times> string option" where
  "row_key p = (bot_id p, content_hash p)"

text \<open>No two rows of one bot share a fingerprint.\<close>

definition unique_per_bot :: "post list \<Rightarrow> bool" where
  "unique_per_bot rows = distinct (map row_key (filter (\<lambda>p. content_hash p \<noteq> None) rows))"

section \<open>Properties of the content catalog\<close>

lemma find_map_index:
  "find P (map f xs) = map_option f (find (\<lambda>x. P (f x)) xs)"
  by (induction xs) auto

lemma weight_walk_find:
  "weight_walk ws r c =
     map_option (\<lambda>i. fst (ws ! i)) (find (\<lambda>i. r \<le> cumulative_weight ws c i) [0..<length ws])"
proof (induction ws arbitrary: c)
  case Nil
  then show ?case by simp
next
  case (Cons w ws)
  obtain t x where w: "w = (t, x)" by (cases w)
  have upt: "[0..<length (w # ws)] = 0 # map Suc [0..<length ws]"
    by (simp add: upt_conv_Cons map_Suc_upt del: upt_Suc)
  show ?case
    unfolding upt
    by (simp add: w Cons.IH find_map_index cumulative_weight_def comp_def option.map_comp)
qed

lemma weight_walk_in_keys: "weight_walk ws r c = Some t \<Longrightarrow> t \<in> fst ` set ws"
  by (induction ws r c rule: weight_walk.induct) (auto split: if_splits)

lemma hd_TEMPLATE_TOPICS: "topic_fallback TEMPLATE_TOPICS = hd TEMPLATE_TOPICS"
  by (simp add: topic_fallback_def TEMPLATE_TOPICS_def)

text \<open>
  Claim C8. \<open>getRandomTopic\<close> always returns a topic: for every weight table and every
  draw it returns the first topic, in table order, whose cumulative weight is at least the
  draw, and when no entry matches it returns the first key of \<open>TEMPLATE_TOPICS\<close>,
  which is \<open>battle_wisdom\<close>. The result is a key of the weight table or that first topic.
\<close>

theorem getRandomTopic_first_match_or_fallback:
  "getRandomTopic_on ws TEMPLATE_TOPICS r =
     (case find (\<lambda>i. r \<le> cumulative_weight ws 0 i) [0..<length ws] of
        Some i \<Rightarrow> fst (ws ! i)
      | None \<Rightarrow> hd TEMPLATE_TOPICS)
   \<and> getRandomTopic_on ws TEMPLATE_TOPICS r \<in> fst ` set ws \<union> {hd TEMPLATE_TOPICS}
   \<and> hd TEMPLATE_TOPICS = ''battle_wisdom''"
proof (intro conjI)
  show "getRandomTopic_on ws TEMPLATE_TOPICS r =
     (case find (\<lambda>i. r \<le> cumulative_weight ws 0 i) [0..<length ws] of
        Some i \<Rightarrow> fst (ws ! i)
      | None \<Rightarrow> hd TEMPLATE_TOPICS)"
    by (simp add: getRandomTopic_on_def weight_walk_find hd_TEMPLATE_TOPICS split: option.splits)
  show "getRandomTopic_on ws TEMPLATE_TOPICS r \<in> fst ` set ws \<union> {hd TEMPLATE_TOPICS}"
    by (auto simp: getRandomTopic_on_def hd_TEMPLATE_TOPICS split: option.splits
             dest: weight_walk_in_keys)
  show "hd TEMPLATE_TOPICS = ''battle_wisdom''"
    by (simp add: TEMPLATE_TOPICS_def)
qed

text \<open>
  The example of the specification: weights that sum to 0.97 and a draw of 0.99.
\<close>

lemma getRandomTopic_drift_example:
  "getRandomTopic_on [(''battle_wisdom'', 1/2), (''war_experience'', 47/100 :: rat)]
     TEMPLATE_TOPICS (99/100) = ''battle_wisdom''
   \<and> weight_walk [(''battle_wisdom'', 1/2), (''war_experience'', 47/100 :: rat)] (99/100) 0 = None"
  by (simp add: getRandomTopic_on_def topic_fallback_def TEMPLATE_TOPICS_def)

lemma walk15:
  "r < 1 \<Longrightarrow> \<exists>t \<in> set (take 15 (map fst TOPIC_WEIGHTS)). weight_walk TOPIC_WEIGHTS r 0 = Some t"
  by (simp add: TOPIC_WEIGHTS_def)

text \<open>
  Claim C9. With the weights of \<open>TOPIC_WEIGHTS\<close> read as exact rationals, the
  cumulative weight is exactly 1 at the fifteenth entry, \<open>everyday_wisdom\<close>; so for
  every draw in [0,1) the walk itself returns one of the first fifteen topics (the
  fallback is not reached) and none of the seventeen topics after them.
\<close>

theorem getRandomTopic_first_fifteen:
  assumes "0 \<le> r" and "r < 1"
  shows "cumulative_weight TOPIC_WEIGHTS 0 14 = 1
       \<and> fst (TOPIC_WEIGHTS ! 14) = ''everyday_wisdom''
       \<and> (\<exists>t \<in> set (take 15 (map fst TOPIC_WEIGHTS)).
             weight_walk TOPIC_WEIGHTS r 0 = Some t \<and> getRandomTopic r = t)
       \<and> getRandomTopic r \<notin> set (drop 15 (map fst TOPIC_WEIGHTS))"
proof (intro conjI)
  show "cumulative_weight TOPIC_WEIGHTS 0 14 = 1"
    by (simp add: cumulative_weight_def TOPIC_WEIGHTS_def)
  show "fst (TOPIC_WEIGHTS ! 14) = ''everyday_wisdom''"
    by (simp add: TOPIC_WEIGHTS_def)
  from walk15 [OF assms(2)] obtain t where
    t: "t \<in> set (take 15 (map fst TOPIC_WEIGHTS))" "weight_walk TOPIC_WEIGHTS r 0 = Some t"
    by blast
  then have g: "getRandomTopic r = t"
    by (simp add: getRandomTopic_def getRandomTopic_on_def)
  from t g show "\<exists>t \<in> set (take 15 (map fst TOPIC_WEIGHTS)).
             weight_walk TOPIC_WEIGHTS r 0 = Some t \<and> getRandomTopic r = t"
    by blast
  have "distinct (map fst TOPIC_WEIGHTS)"
    by (simp add: TOPIC_WEIGHTS_def)
  then have "set (take 15 (map fst TOPIC_WEIGHTS)) \<inter> set (drop 15 (map fst TOPIC_WEIGHTS)) = {}"
    by (metis append_take_drop_id distinct_append)
  with t g show "getRandomTopic r \<notin> set (drop 15 (map fst TOPIC_WEIGHTS))"
    by blast
qed

theorem getRandomTopic_first_fifteen_witness:
  "(0::rat) \<le> 99/100 \<and> (99/100::rat) < 1 \<and> getRandomTopic (99/100) = ''everyday_wisdom''
   \<and> getRandomTopic (99/100) \<notin> set (drop 15 (map fst TOPIC_WEIGHTS))"
  using getRandomTopic_first_fifteen [of "99/100"]
  by (simp add: getRandomTopic_def getRandomTopic_on_def TOPIC_WEIGHTS_def)

section \<open>Properties of the content fingerprint\<close>

text \<open>
  The fingerprint of the post manager depends on the lower-cased, trimmed content only,
  whatever the digest is.
\<close>

lemma PostManager_fingerprint_normalised:
  "trim (toLowerCase s) = trim (toLowerCase t) \<Longrightarrow>
   PostManager_generateContentHash H s = PostManager_generateContentHash H t"
  by (simp add: PostManager_generateContentHash_def)

lemma normalise_Hello_padded: "trim (toLowerCase '' Hello '') = ''hello''"
  by (simp add: toLowerCase_def lower_char_def trim_def is_space_def)

lemma normalise_hello: "trim (toLowerCase ''hello'') = ''hello''"
  by (simp add: toLowerCase_def lower_char_def trim_def is_space_def)

text \<open>
  Claim C5 at an input where the code departs from it. \<open>" Hello "\<close> and
  \<open>"hello"\<close> have the same lower-cased, trimmed form, and the post manager gives them
  the same fingerprint. \<open>TemplatePostGenerator.generateContentHash\<close>, which the
  database seeder uses to fill the same \<open>content_hash\<close> column, hashes the content as
  it is: its two fingerprints differ as soon as the digest tells the two strings apart
  (SHA-256 does: the digests start 185f8db3 and 2cf24dba for \<open>"Hello"\<close> and
  \<open>"hello"\<close>).
\<close>

theorem generator_fingerprint_not_normalised:
  assumes "H '' Hello '' \<noteq> H ''hello''"
  shows "trim (toLowerCase '' Hello '') = trim (toLowerCase ''hello'')
       \<and> PostManager_generateContentHash H '' Hello '' = PostManager_generateContentHash H ''hello''
       \<and> PostGenerator_generateContentHash H '' Hello '' \<noteq> PostGenerator_generateContentHash H ''hello''"
  using assms
  by (simp add: PostManager_generateContentHash_def PostGenerator_generateContentHash_def
        normalise_Hello_padded normalise_hello)

theorem generator_fingerprint_not_normalised_witness:
  "stub_digest '' Hello '' \<noteq> stub_digest ''hello''
   \<and> PostGenerator_generateContentHash stub_digest '' Hello ''
       \<noteq> PostGenerator_generateContentHash stub_digest ''hello''"
proof -
  have h: "stub_digest '' Hello '' \<noteq> stub_digest ''hello''"
    by (simp add: stub_digest_def)
  from generator_fingerprint_not_normalised [OF h] h show ?thesis by simp
qed

section \<open>Properties of markPostAsUsed\<close>

lemma map_if_map_if:
  "(\<And>p. H (u p) = H p) \<Longrightarrow>
   map (\<lambda>p. if H p then v p else p) (map (\<lambda>p. if H p then u p else p) xs) =
   map (\<lambda>p. if H p then v (u p) else p) xs"
  by (induction xs) simp_all

lemma filter_map_if_empty:
  "(\<And>p. H (u p) = H p) \<Longrightarrow> (\<And>p. \<not> Q (u p)) \<Longrightarrow>
   filter (\<lambda>p. H p \<and> Q p) (map (\<lambda>p. if H p then u p else p) xs) = []"
  by (induction xs) simp_all

lemma map_if_never:
  "\<forall>p \<in> set xs. \<not> H p \<Longrightarrow>
   map (\<lambda>p. if H p then u p else p) xs = xs \<and> filter (\<lambda>p. H p \<and> Q p) xs = []"
  by (induction xs) simp_all

lemma where_set_used [simp]: "where_id_and_bot i b (set_used t p) = where_id_and_bot i b p"
  by (simp add: where_id_and_bot_def set_used_def)

lemma set_used_fields [simp]:
  "used (set_used t p)" "used_at (set_used t p) = Some t" "updated_at (set_used t p) = t"
  "p_id (set_used t p) = p_id p" "bot_id (set_used t p) = bot_id p"
  "content (set_used t p) = content p" "created_at (set_used t p) = created_at p"
  "content_hash (set_used t p) = content_hash p"
  by (simp_all add: set_used_def)

lemma set_used_twice: "set_used t2 (set_used t1 p) = (set_used t1 p)\<lparr> used_at := Some t2, updated_at := t2 \<rparr>"
  by (simp add: set_used_def)

lemma mark_posts:
  "posts (markPostAsUsed d b t i) =
     map (\<lambda>p. if where_id_and_bot i b p then set_used t p else p) (posts d)"
  by (simp add: markPostAsUsed_def)

lemma mark_bot_stats:
  "bot_stats (markPostAsUsed d b t i) =
     ((update_bot_stats_on_post_used b t) ^^
        length (filter (\<lambda>p. where_id_and_bot i b p \<and> \<not> used p) (posts d))) (bot_stats d)"
  by (simp add: markPostAsUsed_def)

lemma mark_other_fields:
  "posts_seq (markPostAsUsed d b t i) = posts_seq d"
  "post_logs (markPostAsUsed d b t i) = post_logs d"
  by (simp_all add: markPostAsUsed_def)

lemma mark_twice_posts:
  "posts (markPostAsUsed (markPostAsUsed d b t1 i) b t2 i) =
     map (\<lambda>p. if where_id_and_bot i b p then p\<lparr> used_at := Some t2, updated_at := t2 \<rparr> else p)
       (posts (markPostAsUsed d b t1 i))"
  by (simp add: mark_posts map_if_map_if set_used_twice del: map_map)

lemma mark_fired_zero:
  "filter (\<lambda>p. where_id_and_bot i b p \<and> \<not> used p) (posts (markPostAsUsed d b t1 i)) = []"
  by (simp add: mark_posts filter_map_if_empty)

lemma mark_twice_stats:
  "bot_stats (markPostAsUsed (markPostAsUsed d b t1 i) b t2 i) = bot_stats (markPostAsUsed d b t1 i)"
  by (simp add: mark_bot_stats [of "markPostAsUsed d b t1 i"] mark_fired_zero)

lemma mark_foreign_noop:
  assumes "\<forall>p \<in> set (posts d). \<not> where_id_and_bot i b p"
  shows "markPostAsUsed d b t i = d"
  using map_if_never [OF assms, of "set_used t" "\<lambda>p. \<not> used p"]
  by (simp add: markPostAsUsed_def)

lemma mark_rows_used:
  "\<forall>p \<in> set (map (\<lambda>p. if where_id_and_bot i b p then set_used t p else p) xs).
      where_id_and_bot i b p \<longrightarrow> used p \<and> used_at p = Some t"
  by (induction xs) simp_all


lemma mark_twice_used_flags:
  "map used (posts (markPostAsUsed (markPostAsUsed d b t1 i) b t2 i)) =
   map used (posts (markPostAsUsed d b t1 i))"
  unfolding mark_twice_posts by (simp add: comp_def if_distrib [of used] cong: if_cong)

text \<open>
  Claim C2, as the code has it. A second \<open>markPostAsUsed\<close> for the same post id and bot
  leaves every \<open>used\<close> flag as the first call left it (the row stays used), changes no
  \<open>bot_stats\<close> row (the trigger fires only for a row that goes from unused to used, so
  \<open>remaining_posts\<close> is not decremented twice) and no \<open>post_logs\<close> row, and a call for
  which no row has that id and bot changes nothing at all. The \<open>UPDATE\<close> has no
  condition on \<open>used\<close>, though: the second call writes its own timestamp into
  \<open>used_at\<close> and \<open>updated_at\<close> of the row.
\<close>

theorem markPostAsUsed_second_call:
  "posts (markPostAsUsed (markPostAsUsed d b t1 i) b t2 i) =
     map (\<lambda>p. if where_id_and_bot i b p then p\<lparr> used_at := Some t2, updated_at := t2 \<rparr> else p)
       (posts (markPostAsUsed d b t1 i))
   \<and> (\<forall>p \<in> set (posts (markPostAsUsed (markPostAsUsed d b t1 i) b t2 i)).
         where_id_and_bot i b p \<longrightarrow> used p \<and> used_at p = Some t2)
   \<and> map used (posts (markPostAsUsed (markPostAsUsed d b t1 i) b t2 i)) =
       map used (posts (markPostAsUsed d b t1 i))
   \<and> bot_stats (markPostAsUsed (markPostAsUsed d b t1 i) b t2 i) = bot_stats (markPostAsUsed d b t1 i)
   \<and> post_logs (markPostAsUsed (markPostAsUsed d b t1 i) b t2 i) = post_logs (markPostAsUsed d b t1 i)
   \<and> ((\<forall>p \<in> set (posts d). \<not> where_id_and_bot i b p) \<longrightarrow> markPostAsUsed d b t1 i = d)"
proof (intro conjI)
  show "posts (markPostAsUsed (markPostAsUsed d b t1 i) b t2 i) =
     map (\<lambda>p. if where_id_and_bot i b p then p\<lparr> used_at := Some t2, updated_at := t2 \<rparr> else p)
       (posts (markPostAsUsed d b t1 i))"
    by (rule mark_twice_posts)
  show "\<forall>p \<in> set (posts (markPostAsUsed (markPostAsUsed d b t1 i) b t2 i)).
         where_id_and_bot i b p \<longrightarrow> used p \<and> used_at p = Some t2"
    unfolding mark_posts [of "markPostAsUsed d b t1 i"] by (rule mark_rows_used)
  show "map used (posts (markPostAsUsed (markPostAsUsed d b t1 i) b t2 i)) =
       map used (posts (markPostAsUsed d b t1 i))"
    by (rule mark_twice_used_flags)
  show "bot_stats (markPostAsUsed (markPostAsUsed d b t1 i) b t2 i) = bot_stats (markPostAsUsed d b t1 i)"
    by (rule mark_twice_stats)
  show "post_logs (markPostAsUsed (markPostAsUsed d b t1 i) b t2 i) = post_logs (markPostAsUsed d b t1 i)"
    by (simp only: mark_other_fields)
  show "(\<forall>p \<in> set (posts d). \<not> where_id_and_bot i b p) \<longrightarrow> markPostAsUsed d b t1 i = d"
    by (rule impI) (rule mark_foreign_noop)
qed

text \<open>
  Claim C2 as stated fails: marking post 1 at time 10 and again at time 20 leaves
  \<open>used_at = 20\<close>, not the first call's 10.
\<close>

theorem markPostAsUsed_refreshes_used_at:
  "map used_at (posts (markPostAsUsed one_post_db ''bot-a'' 10 1)) = [Some 10]
   \<and> map used_at (posts (markPostAsUsed (markPostAsUsed one_post_db ''bot-a'' 10 1) ''bot-a'' 20 1))
       = [Some 20]"
  by (simp add: markPostAsUsed_def one_post_db_def example_post_def example_stats_def
        update_bot_stats_on_post_used_def where_id_and_bot_def set_used_def)

text \<open>The theorem at the one-post database, for its own bot and for another one.\<close>

theorem markPostAsUsed_second_call_witness:
  "map remaining_posts (bot_stats (markPostAsUsed one_post_db ''bot-a'' 10 1)) = [0]
   \<and> map remaining_posts
        (bot_stats (markPostAsUsed (markPostAsUsed one_post_db ''bot-a'' 10 1) ''bot-a'' 20 1)) = [0]
   \<and> map used (posts (markPostAsUsed (markPostAsUsed one_post_db ''bot-a'' 10 1) ''bot-a'' 20 1)) = [True]
   \<and> markPostAsUsed one_post_db ''bot-b'' 10 1 = one_post_db"
proof -
  note a = markPostAsUsed_second_call [of one_post_db "''bot-a''" 10 1 20]
  note b = markPostAsUsed_second_call [of one_post_db "''bot-b''" 10 1 20]
  have foreign: "\<forall>p \<in> set (posts one_post_db). \<not> where_id_and_bot 1 ''bot-b'' p"
    by (simp add: one_post_db_def example_post_def where_id_and_bot_def)
  have first: "map remaining_posts (bot_stats (markPostAsUsed one_post_db ''bot-a'' 10 1)) = [0]"
    by (simp add: markPostAsUsed_def one_post_db_def example_post_def example_stats_def
        update_bot_stats_on_post_used_def where_id_and_bot_def)
  have flags: "map used (posts (markPostAsUsed one_post_db ''bot-a'' 10 1)) = [True]"
    by (simp add: markPostAsUsed_def one_post_db_def example_post_def where_id_and_bot_def)
  have second: "map remaining_posts
        (bot_stats (markPostAsUsed (markPostAsUsed one_post_db ''bot-a'' 10 1) ''bot-a'' 20 1)) = [0]"
    by (simp only: a [THEN conjunct2, THEN conjunct2, THEN conjunct2, THEN conjunct1] first)
  have flags2: "map used (posts (markPostAsUsed (markPostAsUsed one_post_db ''bot-a'' 10 1) ''bot-a'' 20 1)) = [True]"
    by (simp only: a [THEN conjunct2, THEN conjunct2, THEN conjunct1] flags)
  have noop: "markPostAsUsed one_post_db ''bot-b'' 10 1 = one_post_db"
    by (rule b [THEN conjunct2, THEN conjunct2, THEN conjunct2, THEN conjunct2, THEN conjunct2,
                THEN mp, OF foreign])
  from first second flags2 noop show ?thesis
    by (intro conjI)
qed

section \<open>Properties of getNextPost\<close>

lemma unused_rows_iff: "p \<in> set (unused_rows d b) \<longleftrightarrow> p \<in> set (posts d) \<and> bot_id p = b \<and> \<not> used p"
  by (simp add: unused_rows_def)

lemma oldest_unused_iff:
  "p \<in> set (oldest_unused d b) \<longleftrightarrow>
     p \<in> set (unused_rows d b) \<and> (\<forall>q \<in> set (unused_rows d b). created_at p \<le> created_at q)"
  by (simp add: oldest_unused_def list_all_iff)

lemma min_created_exists:
  "xs \<noteq> [] \<Longrightarrow> \<exists>p \<in> set xs. \<forall>q \<in> set xs. created_at p \<le> created_at (q::post)"
proof (induction xs)
  case Nil
  then show ?case by simp
next
  case (Cons x xs)
  show ?case
  proof (cases "xs = []")
    case True
    then show ?thesis by simp
  next
    case False
    with Cons.IH obtain p where p: "p \<in> set xs" "\<forall>q \<in> set xs. created_at p \<le> created_at q"
      by blast
    show ?thesis
    proof (cases "created_at x \<le> created_at p")
      case True
      with p have "\<forall>q \<in> set (x # xs). created_at x \<le> created_at q"
        by (simp add: order_trans [OF True])
      then show ?thesis by (meson list.set_intros(1))
    next
      case False
      with p have "\<forall>q \<in> set (x # xs). created_at p \<le> created_at q"
        by simp
      with p(1) show ?thesis by (meson list.set_intros(2))
    qed
  qed
qed

lemma oldest_unused_empty_iff: "oldest_unused d b = [] \<longleftrightarrow> unused_rows d b = []"
proof
  assume e: "oldest_unused d b = []"
  show "unused_rows d b = []"
  proof (rule ccontr)
    assume "unused_rows d b \<noteq> []"
    from min_created_exists [OF this] obtain p where
      "p \<in> set (unused_rows d b)" "\<forall>q \<in> set (unused_rows d b). created_at p \<le> created_at q"
      by blast
    then have "p \<in> set (oldest_unused d b)" by (simp add: oldest_unused_iff)
    with e show False by simp
  qed
next
  assume "unused_rows d b = []"
  then show "oldest_unused d b = []" by (simp add: oldest_unused_def)
qed

lemma getNextPost_None_iff: "getNextPost pk d b = None \<longleftrightarrow> unused_rows d b = []"
  by (simp add: getNextPost_def oldest_unused_empty_iff [symmetric] split: list.splits)

lemma getNextPost_Some_in: "getNextPost pk d b = Some p \<Longrightarrow> p \<in> set (oldest_unused d b)"
proof -
  assume a: "getNextPost pk d b = Some p"
  then obtain c cs where cs: "oldest_unused d b = c # cs"
    by (cases "oldest_unused d b") (simp_all add: getNextPost_def)
  with a have "p = (c # cs) ! (pk (c # cs) mod length (c # cs))"
    by (simp add: getNextPost_def)
  moreover have "pk (c # cs) mod length (c # cs) < length (c # cs)"
    by simp
  ultimately have "p \<in> set (c # cs)"
    using nth_mem by blast
  with cs show ?thesis by simp
qed

lemma getNextPost_member:
  "getNextPost pk d b = Some p \<Longrightarrow> p \<in> set (posts d) \<and> bot_id p = b \<and> \<not> used p"
  using getNextPost_Some_in [of pk d b p] by (simp add: oldest_unused_iff unused_rows_iff)











lemma three_post_then_next:
  "getNextPost pick_first (markPostAsUsed three_post_db ''bot-a'' 20 2) ''bot-a''
     = Some (example_post 1 ''bot-a'' ''first'' 7)"
  by (simp add: getNextPost_def oldest_unused_def unused_rows_def three_post_db_def example_post_def
        pick_first_def markPostAsUsed_def where_id_and_bot_def set_used_def)


section \<open>Properties of the generator\<close>

lemma generateTopicPosts_known:
  "topic \<in> set TEMPLATE_TOPICS \<Longrightarrow>
   \<exists>ps. generateTopicPosts tp topic n = Inr ps \<and> length ps = n
        \<and> map r_content ps = map (generateVariation (getTopicPosts tp topic)) [0..<n]"
  by (simp add: generateTopicPosts_def comp_def)

lemma generateAllPosts_loop_length:
  "set ts \<subseteq> set TEMPLATE_TOPICS \<Longrightarrow>
   \<exists>ps. generateAllPosts_loop tp ts acc = Inr ps \<and> length ps = length acc + 63 * length ts"
proof (induction ts arbitrary: acc)
  case Nil
  then show ?case by simp
next
  case (Cons t ts)
  then have t: "t \<in> set TEMPLATE_TOPICS" and ts: "set ts \<subseteq> set TEMPLATE_TOPICS" by simp_all
  from generateTopicPosts_known [OF t, of tp 63] obtain ps where
    ps: "generateTopicPosts tp t 63 = Inr ps" "length ps = 63" by blast
  from Cons.IH [OF ts, of "acc @ ps"] obtain qs where
    "generateAllPosts_loop tp ts (acc @ ps) = Inr qs" "length qs = length (acc @ ps) + 63 * length ts"
    by blast
  with ps show ?case by simp
qed

lemma generateAllPosts_2016:
  "\<exists>batch. generateAllPosts tp = Inr batch \<and> length batch = 2016"
proof -
  have "length TEMPLATE_TOPICS = 32" by (simp add: TEMPLATE_TOPICS_def)
  with generateAllPosts_loop_length [of TEMPLATE_TOPICS tp "[]"] show ?thesis
    by (simp add: generateAllPosts_def)
qed

section \<open>Properties of storePosts\<close>

lemma has_hash_append: "has_hash b h (xs @ ys) \<longleftrightarrow> has_hash b h xs \<or> has_hash b h ys"
  by (simp add: has_hash_def list_ex_iff) blast

lemma insert_post_Inr:
  assumes "insert_post d b now r h = Inr d'"
  shows "\<exists>row. posts d' = posts d @ [row] \<and> bot_id row = b \<and> content_hash row = Some h
           \<and> \<not> used row \<and> p_id row = next_post_id d \<and> content row = r_content r
           \<and> created_at row = now"
    and "bot_stats d' = bot_stats d" and "post_logs d' = post_logs d"
    and "\<not> list_ex (\<lambda>p. content_hash p = Some h) (posts d)"
  using assms by (auto simp: insert_post_def split: if_splits)

lemma storePosts_loop_grows:
  "storePosts_loop H b now rs d = Inr d' \<Longrightarrow>
     \<exists>new. posts d' = posts d @ new \<and> (\<forall>p \<in> set new. bot_id p = b \<and> \<not> used p)"
proof (induction rs arbitrary: d)
  case Nil
  then show ?case by simp
next
  case (Cons r rs)
  let ?h = "PostManager_generateContentHash H (r_content r)"
  show ?case
  proof (cases "list_ex (\<lambda>p. bot_id p = b \<and> content_hash p = Some ?h) (posts d)")
    case True
    with Cons.prems have "storePosts_loop H b now rs d = Inr d'" by simp
    then show ?thesis by (rule Cons.IH)
  next
    case False
    with Cons.prems obtain d1 where d1: "insert_post d b now r ?h = Inr d1"
      and rest: "storePosts_loop H b now rs d1 = Inr d'"
      by (simp split: sum.splits)
    from insert_post_Inr(1) [OF d1] obtain row where
      row: "posts d1 = posts d @ [row]" "bot_id row = b" "\<not> used row" by blast
    from Cons.IH [OF rest] obtain new where
      new: "posts d' = posts d1 @ new" "\<forall>p \<in> set new. bot_id p = b \<and> \<not> used p" by blast
    from row new have "posts d' = posts d @ (row # new)" "\<forall>p \<in> set (row # new). bot_id p = b \<and> \<not> used p"
      by simp_all
    then show ?thesis by blast
  qed
qed

lemma storePosts_loop_other_tables:
  "storePosts_loop H b now rs d = Inr d' \<Longrightarrow> bot_stats d' = bot_stats d \<and> post_logs d' = post_logs d"
proof (induction rs arbitrary: d)
  case Nil
  then show ?case by simp
next
  case (Cons r rs)
  let ?h = "PostManager_generateContentHash H (r_content r)"
  show ?case
  proof (cases "list_ex (\<lambda>p. bot_id p = b \<and> content_hash p = Some ?h) (posts d)")
    case True
    with Cons.prems have "storePosts_loop H b now rs d = Inr d'" by simp
    then show ?thesis by (rule Cons.IH)
  next
    case False
    with Cons.prems obtain d1 where d1: "insert_post d b now r ?h = Inr d1"
      and rest: "storePosts_loop H b now rs d1 = Inr d'"
      by (simp split: sum.splits)
    from Cons.IH [OF rest] insert_post_Inr(2,3) [OF d1] show ?thesis by simp
  qed
qed

lemma storePosts_loop_all_present:
  "\<forall>r \<in> set rs. has_hash b (PostManager_generateContentHash H (r_content r)) (posts d) \<Longrightarrow>
   storePosts_loop H b now rs d = Inr d"
  by (induction rs) (simp_all add: has_hash_def)

lemma storePosts_loop_covers:
  "storePosts_loop H b now rs d = Inr d' \<Longrightarrow>
   \<forall>r \<in> set rs. has_hash b (PostManager_generateContentHash H (r_content r)) (posts d')"
proof (induction rs arbitrary: d)
  case Nil
  then show ?case by simp
next
  case (Cons r rs)
  let ?h = "PostManager_generateContentHash H (r_content r)"
  show ?case
  proof (cases "list_ex (\<lambda>p. bot_id p = b \<and> content_hash p = Some ?h) (posts d)")
    case True
    with Cons.prems have rest: "storePosts_loop H b now rs d = Inr d'" by simp
    from storePosts_loop_grows [OF rest] obtain new where "posts d' = posts d @ new" by blast
    with True have "has_hash b ?h (posts d')" by (simp add: has_hash_append has_hash_def)
    with Cons.IH [OF rest] show ?thesis by simp
  next
    case False
    with Cons.prems obtain d1 where d1: "insert_post d b now r ?h = Inr d1"
      and rest: "storePosts_loop H b now rs d1 = Inr d'"
      by (simp split: sum.splits)
    from insert_post_Inr(1) [OF d1] obtain row where
      row: "posts d1 = posts d @ [row]" "bot_id row = b" "content_hash row = Some ?h" by blast
    then have "has_hash b ?h (posts d1)" by (simp add: has_hash_append has_hash_def)
    moreover from storePosts_loop_grows [OF rest] obtain new where "posts d' = posts d1 @ new" by blast
    ultimately have "has_hash b ?h (posts d')" by (simp add: has_hash_append)
    with Cons.IH [OF rest] show ?thesis by simp
  qed
qed

lemma storePosts_again:
  assumes "storePosts H b now d batch = Inr d'"
  shows "storePosts H b now' d' batch = Inr d'"
  unfolding storePosts_def
  by (rule storePosts_loop_all_present) (rule storePosts_loop_covers [OF assms [unfolded storePosts_def]])

text \<open>No statement fails when every row of the table belongs to the bot.\<close>

lemma list_ex_own_rows:
  "\<forall>p \<in> set rows. bot_id p = b \<Longrightarrow>
   list_ex (\<lambda>p. content_hash p = Some h) rows = list_ex (\<lambda>p. bot_id p = b \<and> content_hash p = Some h) rows"
  by (induction rows) simp_all

lemma storePosts_loop_own_rows:
  "\<forall>p \<in> set (posts d). bot_id p = b \<Longrightarrow> \<exists>d'. storePosts_loop H b now rs d = Inr d'"
proof (induction rs arbitrary: d)
  case Nil
  then show ?case by simp
next
  case (Cons r rs)
  let ?h = "PostManager_generateContentHash H (r_content r)"
  show ?case
  proof (cases "list_ex (\<lambda>p. bot_id p = b \<and> content_hash p = Some ?h) (posts d)")
    case True
    with Cons.IH [OF Cons.prems] show ?thesis by simp
  next
    case False
    with list_ex_own_rows [OF Cons.prems, of ?h]
    have free: "\<not> list_ex (\<lambda>p. content_hash p = Some ?h) (posts d)" by simp
    then obtain d1 where d1: "insert_post d b now r ?h = Inr d1"
      by (simp add: insert_post_def)
    from insert_post_Inr(1) [OF d1] obtain row where "posts d1 = posts d @ [row]" "bot_id row = b"
      by blast
    with Cons.prems have "\<forall>p \<in> set (posts d1). bot_id p = b" by simp
    from Cons.IH [OF this] False d1 show ?thesis by simp
  qed
qed

text \<open>Whether the loop fails depends on the bots and fingerprints of the rows only, not on the time.\<close>

lemma list_ex_by_key1:
  "list_ex (\<lambda>p. bot_id p = b \<and> content_hash p = Some h) xs =
   list_ex (\<lambda>k. fst k = b \<and> snd k = Some h) (map row_key xs)"
  by (induction xs) (simp_all add: row_key_def)

lemma list_ex_by_key2:
  "list_ex (\<lambda>p. content_hash p = Some h) xs = list_ex (\<lambda>k. snd k = Some h) (map row_key xs)"
  by (induction xs) (simp_all add: row_key_def)

lemma list_ex_key1:
  "map row_key xs = map row_key ys \<Longrightarrow>
   list_ex (\<lambda>p. bot_id p = b \<and> content_hash p = Some h) xs =
   list_ex (\<lambda>p. bot_id p = b \<and> content_hash p = Some h) ys"
  by (simp only: list_ex_by_key1)

lemma list_ex_key2:
  "map row_key xs = map row_key ys \<Longrightarrow>
   list_ex (\<lambda>p. content_hash p = Some h) xs = list_ex (\<lambda>p. content_hash p = Some h) ys"
  by (simp only: list_ex_by_key2)

lemma storePosts_loop_fails_at_any_time:
  "map row_key (posts d1) = map row_key (posts d2) \<Longrightarrow>
   storePosts_loop H b n1 rs d1 = Inl e \<Longrightarrow> storePosts_loop H b n2 rs d2 = Inl e"
proof (induction rs arbitrary: d1 d2)
  case Nil
  then show ?case by simp
next
  case (Cons r rs)
  let ?h = "PostManager_generateContentHash H (r_content r)"
  note k1 = list_ex_key1 [OF Cons.prems(1), of b ?h]
  note k2 = list_ex_key2 [OF Cons.prems(1), of ?h]
  show ?case
  proof (cases "list_ex (\<lambda>p. bot_id p = b \<and> content_hash p = Some ?h) (posts d1)")
    case True
    with Cons.prems(2) have "storePosts_loop H b n1 rs d1 = Inl e" by simp
    from Cons.IH [OF Cons.prems(1) this] True k1 show ?thesis by simp
  next
    case False
    show ?thesis
    proof (cases "list_ex (\<lambda>p. content_hash p = Some ?h) (posts d1)")
      case True
      with False Cons.prems(2) have "e = DatabaseError ''UNIQUE constraint failed: posts.content_hash''"
        by (simp add: insert_post_def)
      with True False k1 k2 show ?thesis by (simp add: insert_post_def)
    next
      case free: False
      then obtain a1 where a1: "insert_post d1 b n1 r ?h = Inr a1" by (simp add: insert_post_def)
      from free k2 obtain a2 where a2: "insert_post d2 b n2 r ?h = Inr a2" by (simp add: insert_post_def)
      from insert_post_Inr(1) [OF a1] obtain row1 where
        r1: "posts a1 = posts d1 @ [row1]" "bot_id row1 = b" "content_hash row1 = Some ?h" by blast
      from insert_post_Inr(1) [OF a2] obtain row2 where
        r2: "posts a2 = posts d2 @ [row2]" "bot_id row2 = b" "content_hash row2 = Some ?h" by blast
      from r1 r2 have "row_key row1 = row_key row2" by (simp add: row_key_def)
      with r1(1) r2(1) Cons.prems(1) have keys: "map row_key (posts a1) = map row_key (posts a2)"
        by simp
      from False a1 Cons.prems(2) have "storePosts_loop H b n1 rs a1 = Inl e" by simp
      from Cons.IH [OF keys this] False k1 a2 show ?thesis by simp
    qed
  qed
qed

lemma normalise_Hello: "trim (toLowerCase ''Hello'') = ''hello''"
  by (simp add: toLowerCase_def lower_char_def trim_def is_space_def)

text \<open>A batch that is stored keeps fingerprints unique within each bot.\<close>

lemma insert_post_keeps_unique:
  assumes "insert_post d b now r h = Inr d'" and "unique_per_bot (posts d)"
  shows "unique_per_bot (posts d')"
proof -
  from insert_post_Inr(1) [OF assms(1)] obtain row where
    row: "posts d' = posts d @ [row]" "bot_id row = b" "content_hash row = Some h" by blast
  from insert_post_Inr(4) [OF assms(1)] have "\<forall>p \<in> set (posts d). content_hash p \<noteq> Some h"
    by (simp add: list_ex_iff)
  then have "(b, Some h) \<notin> row_key ` set (posts d)"
    by (auto simp: row_key_def image_iff)
  then have "(b, Some h) \<notin> set (map row_key (posts d))"
    by simp
  then have "(b, Some h) \<notin> set (map row_key (filter (\<lambda>p. content_hash p \<noteq> None) (posts d)))"
    by auto
  moreover have "row_key row = (b, Some h)" using row by (simp add: row_key_def)
  ultimately show ?thesis
    using assms(2) row by (simp add: unique_per_bot_def)
qed

lemma storePosts_loop_keeps_unique:
  "storePosts_loop H b now rs d = Inr d' \<Longrightarrow> unique_per_bot (posts d) \<Longrightarrow> unique_per_bot (posts d')"
proof (induction rs arbitrary: d)
  case Nil
  then show ?case by simp
next
  case (Cons r rs)
  let ?h = "PostManager_generateContentHash H (r_content r)"
  show ?case
  proof (cases "list_ex (\<lambda>p. bot_id p = b \<and> content_hash p = Some ?h) (posts d)")
    case True
    with Cons.prems(1) have "storePosts_loop H b now rs d = Inr d'" by simp
    from Cons.IH [OF this Cons.prems(2)] show ?thesis .
  next
    case False
    with Cons.prems(1) obtain d1 where d1: "insert_post d b now r ?h = Inr d1"
      and rest: "storePosts_loop H b now rs d1 = Inr d'"
      by (simp split: sum.splits)
    from Cons.IH [OF rest insert_post_keeps_unique [OF d1 Cons.prems(2)]] show ?thesis .
  qed
qed

text \<open>
  The batch of the specification's example in a table of this bot's rows only: ten items,
  three with stored fingerprints; the seven others are appended and the three are skipped.
\<close>

lemma ten_item_hashes:
  "map (\<lambda>r. PostManager_generateContentHash stub_digest (r_content r)) ten_item_batch =
     [''post 1'', ''post 4'', ''post 5'', ''post 2'', ''post 6'', ''post 7'',
      ''post 3'', ''post 8'', ''post 9'', ''post 10'']"
  by (simp add: ten_item_batch_def generated_def PostManager_generateContentHash_def stub_digest_def
        toLowerCase_def lower_char_def trim_def is_space_def)

lemma ten_item_example:
  "\<exists>d'. storePosts stub_digest ''bot-a'' 9 three_stored_db ten_item_batch = Inr d'
      \<and> map content (posts d') =
            [''post 1'', ''post 2'', ''post 3'', ''Post 4'', ''Post 5'', ''Post 6'', ''Post 7'',
             ''Post 8'', ''Post 9'', ''Post 10'']
      \<and> length (posts d') = length (posts three_stored_db) + 7
      \<and> total (getPostCount d' ''bot-a'') = total (getPostCount three_stored_db ''bot-a'') + 7"
  using ten_item_hashes
  by (simp add: storePosts_def ten_item_batch_def generated_def three_stored_db_def example_post_def
        insert_post_def next_post_id_def getPostCount_def Let_def)

text \<open>An insert, and so a stored batch, keeps the rows in rowid order.\<close>

lemma fold_max_ge: "s \<le> fold max xs (s::nat) \<and> (\<forall>x \<in> set xs. x \<le> fold max xs s)"
proof (induction xs arbitrary: s)
  case Nil
  then show ?case by simp
next
  case (Cons x xs)
  from Cons.IH [of "max x s"] show ?case by auto
qed

lemma insert_post_rowid_order:
  assumes "insert_post d b now r h = Inr d'" and "rowid_order d"
  shows "rowid_order d'"
proof -
  from insert_post_Inr(1) [OF assms(1)] obtain row where
    row: "posts d' = posts d @ [row]" "p_id row = next_post_id d" by blast
  have "\<forall>x \<in> set (map p_id (posts d)). x < next_post_id d"
    using fold_max_ge [of "posts_seq d" "map p_id (posts d)"]
    by (auto simp: next_post_id_def less_Suc_eq_le)
  with assms(2) row show ?thesis
    by (simp add: rowid_order_def sorted_wrt_append)
qed

lemma storePosts_loop_rowid_order:
  "storePosts_loop H b now rs d = Inr d' \<Longrightarrow> rowid_order d \<Longrightarrow> rowid_order d'"
proof (induction rs arbitrary: d)
  case Nil
  then show ?case by simp
next
  case (Cons r rs)
  let ?h = "PostManager_generateContentHash H (r_content r)"
  show ?case
  proof (cases "list_ex (\<lambda>p. bot_id p = b \<and> content_hash p = Some ?h) (posts d)")
    case True
    with Cons.prems(1) have "storePosts_loop H b now rs d = Inr d'" by simp
    from Cons.IH [OF this Cons.prems(2)] show ?thesis .
  next
    case False
    with Cons.prems(1) obtain d1 where d1: "insert_post d b now r ?h = Inr d1"
      and rest: "storePosts_loop H b now rs d1 = Inr d'"
      by (simp split: sum.splits)
    from Cons.IH [OF rest insert_post_rowid_order [OF d1 Cons.prems(2)]] show ?thesis .
  qed
qed

text \<open>
  Claim C4 at an input where the code departs from it. The table holds one row of
  \<open>bot-b\<close> with the fingerprint of \<open>hello\<close>; \<open>bot-a\<close> stores the one-item batch
  \<open>Hello\<close>. No row of \<open>bot-a\<close> has that fingerprint, so the item is not skipped; the
  insert then violates the column constraint \<open>content_hash UNIQUE\<close>, which ignores the
  bot, and the whole batch is rolled back with an error.
\<close>

theorem storePosts_aborts_on_other_bots_fingerprint:
  "storePosts H ''bot-a'' now
     \<lparr> posts = [(example_post 1 ''bot-b'' ''hello'' 5)\<lparr> content_hash := Some (H ''hello'') \<rparr>],
       posts_seq = 1, bot_stats = [], post_logs = [] \<rparr>
     [\<lparr> r_content = ''Hello'', r_category = None, tokens_used = 50, cost = 1 / 1000,
        model = ''template-bot-local'' \<rparr>]
   = Inl (DatabaseError ''UNIQUE constraint failed: posts.content_hash'')"
  by (simp add: storePosts_def insert_post_def example_post_def PostManager_generateContentHash_def
        normalise_Hello Let_def)

section \<open>Properties of generatePosts\<close>

lemma generatePosts_fail:
  assumes "generateAllPosts (topicPosts sv) = Inr batch"
    and "storePosts (sha256 sv) (botId cfg) (clock w div 1000) (database w) batch = Inl e"
  shows "generatePosts cfg sv w = (Some e, w\<lparr> generate_calls := Suc (generate_calls w) \<rparr>)"
  using assms by (simp add: generatePosts_def Let_def CURRENT_TIMESTAMP_def)

lemma generatePosts_ok:
  assumes "generateAllPosts (topicPosts sv) = Inr batch"
    and "storePosts (sha256 sv) (botId cfg) (clock w div 1000) (database w) batch = Inr d"
  shows "generatePosts cfg sv w =
    (None, w\<lparr> generate_calls := Suc (generate_calls w),
              database := d\<lparr> bot_stats := replenish_bot_stats (botId cfg) (clock w div 1000)
                                             (int (length batch)) (bot_stats d) \<rparr> \<rparr>)"
  using assms by (simp add: generatePosts_def Let_def CURRENT_TIMESTAMP_def)

lemma generatePosts_twice_posts:
  "posts (database (snd (generatePosts cfg sv ((snd (generatePosts cfg sv w))\<lparr> clock := c \<rparr>)))) =
   posts (database (snd (generatePosts cfg sv w)))"
proof -
  from generateAllPosts_2016 [of "topicPosts sv"] obtain batch where
    batch: "generateAllPosts (topicPosts sv) = Inr batch" by blast
  let ?H = "sha256 sv" and ?b = "botId cfg"
  show ?thesis
  proof (cases "storePosts ?H ?b (clock w div 1000) (database w) batch")
    case (Inl e)
    note first = generatePosts_fail [OF batch Inl]
    let ?w1 = "w\<lparr> generate_calls := Suc (generate_calls w), clock := c \<rparr>"
    from Inl have "storePosts_loop ?H ?b (clock w div 1000) batch (database w) = Inl e"
      by (simp add: storePosts_def)
    from storePosts_loop_fails_at_any_time [OF refl this]
    have "storePosts ?H ?b (clock ?w1 div 1000) (database ?w1) batch = Inl e"
      by (simp add: storePosts_def)
    from generatePosts_fail [OF batch this] first show ?thesis by simp
  next
    case (Inr d)
    note first = generatePosts_ok [OF batch Inr]
    let ?d1 = "d\<lparr> bot_stats := replenish_bot_stats ?b (clock w div 1000)
                                             (int (length batch)) (bot_stats d) \<rparr>"
    let ?w1 = "w\<lparr> generate_calls := Suc (generate_calls w), database := ?d1, clock := c \<rparr>"
    from Inr have "storePosts_loop ?H ?b (clock w div 1000) batch (database w) = Inr d"
      by (simp add: storePosts_def)
    from storePosts_loop_covers [OF this]
    have "\<forall>r \<in> set batch. has_hash ?b (PostManager_generateContentHash ?H (r_content r)) (posts ?d1)"
      by simp
    from storePosts_loop_all_present [OF this, of "c div 1000"]
    have "storePosts ?H ?b (clock ?w1 div 1000) (database ?w1) batch = Inr ?d1"
      by (simp add: storePosts_def)
    from generatePosts_ok [OF batch this] first show ?thesis by simp
  qed
qed

text \<open>
  Claim C10. \<open>generateAllPosts\<close> has no input but the seed table (no random draw): it is
  a function of it, it never throws, and its result has 2,016 = 32 * 63 posts. So a second
  \<open>generatePosts\<close> for the same bot, at whatever later time \<open>c\<close>, leaves the
  \<open>posts\<close> table exactly as the first one left it: no row is inserted.
\<close>

theorem replenishment_twice_inserts_nothing:
  "(\<exists>batch. generateAllPosts tp = Inr batch \<and> length batch = 2016 \<and> 2016 = 32 * (63::nat))
   \<and> posts (database (snd (generatePosts cfg sv ((snd (generatePosts cfg sv w))\<lparr> clock := c \<rparr>)))) =
       posts (database (snd (generatePosts cfg sv w)))"
  using generateAllPosts_2016 [of tp] generatePosts_twice_posts [where cfg=cfg and sv=sv and w=w and c=c] by simp

section \<open>Properties of postWithRetry\<close>

text \<open>The four ways one round of the loop can go.\<close>

lemma retry_done:
  "\<not> a \<le> MAX_RETRIES cfg \<Longrightarrow>
   postWithRetry_loop cfg sv text a w =
     (\<lparr> pr_success = False, pr_tweet_id = None, pr_error = Some ''Max retries exceeded'' \<rparr>, w)"
  by (subst postWithRetry_loop.simps) simp

lemma retry_ok:
  "a \<le> MAX_RETRIES cfg \<Longrightarrow> postTweet sv (tweet_calls w) text = (Inr tid, rt) \<Longrightarrow>
   postWithRetry_loop cfg sv text a w =
     (\<lparr> pr_success = True, pr_tweet_id = Some tid, pr_error = None \<rparr>,
      log_success cfg tid rt (w\<lparr> clock := clock w + rt, tweet_calls := Suc (tweet_calls w) \<rparr>))"
  by (subst postWithRetry_loop.simps) (simp add: call_postTweet_def)

lemma retry_last:
  "a = MAX_RETRIES cfg \<Longrightarrow> postTweet sv (tweet_calls w) text = (Inl msg, rt) \<Longrightarrow>
   postWithRetry_loop cfg sv text a w =
     (\<lparr> pr_success = False, pr_tweet_id = None, pr_error = Some msg \<rparr>,
      log_failure cfg a msg (w\<lparr> clock := clock w + rt, tweet_calls := Suc (tweet_calls w) \<rparr>))"
  by (subst postWithRetry_loop.simps) (simp add: call_postTweet_def)

lemma retry_again:
  "a < MAX_RETRIES cfg \<Longrightarrow> postTweet sv (tweet_calls w) text = (Inl msg, rt) \<Longrightarrow>
   postWithRetry_loop cfg sv text a w =
     postWithRetry_loop cfg sv text (a + 1)
       (sleep (RETRY_DELAY_MS cfg)
          (log_failure cfg a msg (w\<lparr> clock := clock w + rt, tweet_calls := Suc (tweet_calls w) \<rparr>)))"
  by (subst postWithRetry_loop.simps) (simp add: call_postTweet_def)

lemma log_failure_fields [simp]:
  "posts (database (log_failure cfg a msg w)) = posts (database w)"
  "bot_stats (database (log_failure cfg a msg w)) = bot_stats (database w)"
  "posts_seq (database (log_failure cfg a msg w)) = posts_seq (database w)"
  "post_logs (database (log_failure cfg a msg w)) = post_logs (database w) @
     [\<lparr> pl_bot_id = BOT_NAME cfg, pl_post_id = None, attempt_number = a,
        success = False, tweet_id = None, error_message = Some msg,
        response_time_ms = None, pl_created_at = clock w div 1000 \<rparr>]"
  "clock (log_failure cfg a msg w) = clock w"
  "tweet_calls (log_failure cfg a msg w) = tweet_calls w"
  "sleeps (log_failure cfg a msg w) = sleeps w"
  "generate_calls (log_failure cfg a msg w) = generate_calls w"
  by (simp_all add: log_failure_def CURRENT_TIMESTAMP_def)

lemma log_success_fields [simp]:
  "posts (database (log_success cfg tid rt w)) = posts (database w)"
  "bot_stats (database (log_success cfg tid rt w)) = bot_stats (database w)"
  "posts_seq (database (log_success cfg tid rt w)) = posts_seq (database w)"
  "post_logs (database (log_success cfg tid rt w)) = post_logs (database w) @
     [\<lparr> pl_bot_id = BOT_NAME cfg, pl_post_id = None, attempt_number = 1,
        success = True, tweet_id = Some tid, error_message = None,
        response_time_ms = Some rt, pl_created_at = clock w div 1000 \<rparr>]"
  "clock (log_success cfg tid rt w) = clock w"
  "tweet_calls (log_success cfg tid rt w) = tweet_calls w"
  "sleeps (log_success cfg tid rt w) = sleeps w"
  "generate_calls (log_success cfg tid rt w) = generate_calls w"
  by (simp_all add: log_success_def CURRENT_TIMESTAMP_def)

lemma sleep_fields [simp]:
  "database (sleep d w) = database w"
  "clock (sleep d w) = clock w + nat d"
  "tweet_calls (sleep d w) = tweet_calls w"
  "sleeps (sleep d w) = sleeps w @ [d]"
  "generate_calls (sleep d w) = generate_calls w"
  by (simp_all add: sleep_def)

text \<open>The retry loop writes to \<open>post_logs\<close> only.\<close>

lemma retry_frame:
  "k = nat (MAX_RETRIES cfg + 1 - a) \<Longrightarrow>
   posts (database (snd (postWithRetry_loop cfg sv text a w))) = posts (database w)
   \<and> bot_stats (database (snd (postWithRetry_loop cfg sv text a w))) = bot_stats (database w)
   \<and> posts_seq (database (snd (postWithRetry_loop cfg sv text a w))) = posts_seq (database w)
   \<and> generate_calls (snd (postWithRetry_loop cfg sv text a w)) = generate_calls w"
proof (induction k arbitrary: a w)
  case 0
  then have "\<not> a \<le> MAX_RETRIES cfg" by simp
  then show ?case by (simp add: retry_done)
next
  case (Suc k)
  then have le: "a \<le> MAX_RETRIES cfg" by simp
  obtain out rt where out: "postTweet sv (tweet_calls w) text = (out, rt)"
    by (cases "postTweet sv (tweet_calls w) text")
  show ?case
  proof (cases out)
    case (Inr tid)
    with out le show ?thesis by (simp add: retry_ok)
  next
    case (Inl msg)
    show ?thesis
    proof (cases "a = MAX_RETRIES cfg")
      case True
      with out Inl show ?thesis by (simp add: retry_last)
    next
      case False
      with le have lt: "a < MAX_RETRIES cfg" by simp
      from Suc.prems have k: "k = nat (MAX_RETRIES cfg + 1 - (a + 1))" by simp
      from Suc.IH [OF k] out Inl lt show ?thesis by (simp add: retry_again)
    qed
  qed
qed

text \<open>When every call of the publish client throws.\<close>

lemma retry_all_fail:
  assumes fail: "\<And>n. isl (fst (postTweet sv n text))"
  shows "k = nat (MAX_RETRIES cfg + 1 - a) \<Longrightarrow>
   \<not> pr_success (fst (postWithRetry_loop cfg sv text a w))
   \<and> tweet_calls (snd (postWithRetry_loop cfg sv text a w)) = tweet_calls w + k
   \<and> sleeps (snd (postWithRetry_loop cfg sv text a w)) = sleeps w @ replicate (k - 1) (RETRY_DELAY_MS cfg)
   \<and> (\<exists>rows. post_logs (database (snd (postWithRetry_loop cfg sv text a w))) =
                  post_logs (database w) @ rows
          \<and> map attempt_number rows = map (\<lambda>j. a + int j) [0..<k]
          \<and> (\<forall>row \<in> set rows. \<not> success row \<and> tweet_id row = None \<and> pl_bot_id row = BOT_NAME cfg))"
proof (induction k arbitrary: a w)
  case 0
  then have "\<not> a \<le> MAX_RETRIES cfg" by simp
  then show ?case by (simp add: retry_done)
next
  case (Suc k)
  then have le: "a \<le> MAX_RETRIES cfg" by simp
  obtain out rt where out: "postTweet sv (tweet_calls w) text = (out, rt)"
    by (cases "postTweet sv (tweet_calls w) text")
  with fail [of "tweet_calls w"] obtain msg where msg: "out = Inl msg"
    by (cases out) simp_all
  show ?case
  proof (cases "a = MAX_RETRIES cfg")
    case True
    with Suc.prems have "k = 0" by simp
    with True out msg show ?thesis by (simp add: retry_last)
  next
    case False
    with le have lt: "a < MAX_RETRIES cfg" by simp
    from Suc.prems have k: "k = nat (MAX_RETRIES cfg + 1 - (a + 1))" by simp
    from lt Suc.prems have kpos: "0 < k" by simp
    let ?w1 = "sleep (RETRY_DELAY_MS cfg)
          (log_failure cfg a msg (w\<lparr> clock := clock w + rt, tweet_calls := Suc (tweet_calls w) \<rparr>))"
    have step: "postWithRetry_loop cfg sv text a w = postWithRetry_loop cfg sv text (a + 1) ?w1"
      using lt out msg by (simp add: retry_again)
    from Suc.IH [OF k, of ?w1] obtain rows where
      r: "\<not> pr_success (fst (postWithRetry_loop cfg sv text (a + 1) ?w1))"
         "tweet_calls (snd (postWithRetry_loop cfg sv text (a + 1) ?w1)) = tweet_calls ?w1 + k"
         "sleeps (snd (postWithRetry_loop cfg sv text (a + 1) ?w1)) =
            sleeps ?w1 @ replicate (k - 1) (RETRY_DELAY_MS cfg)"
         "post_logs (database (snd (postWithRetry_loop cfg sv text (a + 1) ?w1))) =
            post_logs (database ?w1) @ rows"
         "map attempt_number rows = map (\<lambda>j. a + 1 + int j) [0..<k]"
         "\<forall>row \<in> set rows. \<not> success row \<and> tweet_id row = None \<and> pl_bot_id row = BOT_NAME cfg"
      by blast
    let ?row = "\<lparr> pl_bot_id = BOT_NAME cfg, pl_post_id = None, attempt_number = a,
        success = False, tweet_id = None, error_message = Some msg,
        response_time_ms = None, pl_created_at = (clock w + rt) div 1000 \<rparr>"
    have upt: "[0..<Suc k] = 0 # map Suc [0..<k]"
      by (simp add: upt_conv_Cons map_Suc_upt del: upt_Suc)
    have nums: "map attempt_number (?row # rows) = map (\<lambda>j. a + int j) [0..<Suc k]"
      unfolding upt using r(5) by (simp add: comp_def add.assoc)
    have sl: "sleeps w @ [RETRY_DELAY_MS cfg] @ replicate (k - 1) (RETRY_DELAY_MS cfg)
              = sleeps w @ replicate (Suc k - 1) (RETRY_DELAY_MS cfg)"
      using kpos by (cases k) simp_all
    have logs: "post_logs (database (snd (postWithRetry_loop cfg sv text a w))) =
                  post_logs (database w) @ (?row # rows)"
      unfolding step r(4) by simp
    have all: "\<forall>row \<in> set (?row # rows). \<not> success row \<and> tweet_id row = None \<and> pl_bot_id row = BOT_NAME cfg"
      using r(6) by simp
    have "\<not> pr_success (fst (postWithRetry_loop cfg sv text a w))"
      unfolding step by (rule r(1))
    moreover have "tweet_calls (snd (postWithRetry_loop cfg sv text a w)) = tweet_calls w + Suc k"
      unfolding step r(2) by simp
    moreover have "sleeps (snd (postWithRetry_loop cfg sv text a w)) =
        sleeps w @ replicate (Suc k - 1) (RETRY_DELAY_MS cfg)"
      unfolding step r(3) using sl by simp
    ultimately show ?thesis using logs nums all by blast
  qed
qed

section \<open>Properties of the publish cycle\<close>

text \<open>What \<open>generatePosts\<close> and the post-cycle check leave alone.\<close>

lemma replenish_bot_stats_length [simp]: "length (replenish_bot_stats b t n stats) = length stats"
  by (simp add: replenish_bot_stats_def)

lemma generatePosts_frame:
  "(\<exists>new. posts (database (snd (generatePosts cfg sv w))) = posts (database w) @ new
          \<and> (\<forall>p \<in> set new. bot_id p = botId cfg \<and> \<not> used p))
   \<and> post_logs (database (snd (generatePosts cfg sv w))) = post_logs (database w)
   \<and> tweet_calls (snd (generatePosts cfg sv w)) = tweet_calls w
   \<and> sleeps (snd (generatePosts cfg sv w)) = sleeps w
   \<and> clock (snd (generatePosts cfg sv w)) = clock w
   \<and> generate_calls (snd (generatePosts cfg sv w)) = Suc (generate_calls w)"
proof -
  from generateAllPosts_2016 [of "topicPosts sv"] obtain batch where
    batch: "generateAllPosts (topicPosts sv) = Inr batch" by blast
  show ?thesis
  proof (cases "storePosts (sha256 sv) (botId cfg) (clock w div 1000) (database w) batch")
    case (Inl e)
    show ?thesis unfolding generatePosts_fail [OF batch Inl] by simp
  next
    case (Inr d)
    then have loop: "storePosts_loop (sha256 sv) (botId cfg) (clock w div 1000) batch (database w) = Inr d"
      by (simp add: storePosts_def)
    from storePosts_loop_grows [OF loop] obtain new where
      "posts d = posts (database w) @ new" "\<forall>p \<in> set new. bot_id p = botId cfg \<and> \<not> used p" by blast
    moreover from storePosts_loop_other_tables [OF loop] have "post_logs d = post_logs (database w)"
      by simp
    ultimately show ?thesis unfolding generatePosts_ok [OF batch Inr] by simp
  qed
qed

lemma checkAndGeneratePosts_frame:
  "(\<exists>new. posts (database (checkAndGeneratePosts cfg sv w)) = posts (database w) @ new
          \<and> (\<forall>p \<in> set new. bot_id p = botId cfg \<and> \<not> used p))
   \<and> post_logs (database (checkAndGeneratePosts cfg sv w)) = post_logs (database w)
   \<and> tweet_calls (checkAndGeneratePosts cfg sv w) = tweet_calls w
   \<and> sleeps (checkAndGeneratePosts cfg sv w) = sleeps w
   \<and> clock (checkAndGeneratePosts cfg sv w) = clock w
   \<and> generate_calls (checkAndGeneratePosts cfg sv w) =
       generate_calls w +
         (if remaining (getPostCount (database w) (botId cfg)) \<le> REPLENISHMENT_THRESHOLD cfg
          then 1 else 0)"
proof (cases "remaining (getPostCount (database w) (botId cfg)) \<le> REPLENISHMENT_THRESHOLD cfg")
  case True
  then have "checkAndGeneratePosts cfg sv w = snd (generatePosts cfg sv w)"
    by (simp add: checkAndGeneratePosts_def)
  with generatePosts_frame [of cfg sv w] True show ?thesis by simp
next
  case False
  then have "checkAndGeneratePosts cfg sv w = w"
    by (simp add: checkAndGeneratePosts_def)
  with False show ?thesis by simp
qed

lemma executePost_Some:
  assumes "getNextPost (pick sv) (database w) (botId cfg) = Some p"
  shows "executePost cfg sv w =
    (None, checkAndGeneratePosts cfg sv
       (if pr_success (fst (postWithRetry cfg sv (content p) w))
        then (snd (postWithRetry cfg sv (content p) w))
               \<lparr> database := markPostAsUsed (database (snd (postWithRetry cfg sv (content p) w)))
                    (botId cfg) (clock (snd (postWithRetry cfg sv (content p) w)) div 1000) (p_id p) \<rparr>
        else snd (postWithRetry cfg sv (content p) w)))"
  using assms
  by (simp add: executePost_def Let_def CURRENT_TIMESTAMP_def split: prod.splits)

lemma retry_frame1:
  "posts (database (snd (postWithRetry cfg sv text w))) = posts (database w)"
  "bot_stats (database (snd (postWithRetry cfg sv text w))) = bot_stats (database w)"
  "generate_calls (snd (postWithRetry cfg sv text w)) = generate_calls w"
  using retry_frame [OF refl, of cfg sv "text" 1 w] by (simp_all add: postWithRetry_def)

section \<open>Exhausted retries\<close>

lemma executePost_failed_world:
  assumes "getNextPost (pick sv) (database w) (botId cfg) = Some p"
    and "\<not> pr_success (fst (postWithRetry cfg sv (content p) w))"
  shows "snd (executePost cfg sv w) =
           checkAndGeneratePosts cfg sv (snd (postWithRetry cfg sv (content p) w))"
  using assms(2) by (simp add: executePost_Some [OF assms(1)])

lemma publish_all_fail:
  assumes fail: "\<And>n. isl (fst (postTweet sv n (content p)))"
    and nxt: "getNextPost (pick sv) (database w) (botId cfg) = Some p"
  shows "\<not> pr_success (fst (postWithRetry cfg sv (content p) w))
    \<and> tweet_calls (snd (executePost cfg sv w)) = tweet_calls w + nat (MAX_RETRIES cfg)
    \<and> sleeps (snd (executePost cfg sv w)) =
        sleeps w @ replicate (nat (MAX_RETRIES cfg) - 1) (RETRY_DELAY_MS cfg)
    \<and> (\<exists>rows. post_logs (database (snd (executePost cfg sv w))) = post_logs (database w) @ rows
          \<and> length rows = nat (MAX_RETRIES cfg)
          \<and> map attempt_number rows = map (\<lambda>j. 1 + int j) [0..<nat (MAX_RETRIES cfg)]
          \<and> (\<forall>row \<in> set rows. \<not> success row \<and> tweet_id row = None \<and> pl_bot_id row = BOT_NAME cfg))
    \<and> (\<exists>new. posts (database (snd (executePost cfg sv w))) = posts (database w) @ new)
    \<and> p \<in> set (posts (database (snd (executePost cfg sv w)))) \<and> \<not> used p"
proof -
  let ?k = "nat (MAX_RETRIES cfg)"
  let ?w1 = "snd (postWithRetry cfg sv (content p) w)"
  have k: "?k = nat (MAX_RETRIES cfg + 1 - 1)" by simp
  from retry_all_fail [OF fail k, of w] obtain rows where
    r: "\<not> pr_success (fst (postWithRetry cfg sv (content p) w))"
       "tweet_calls ?w1 = tweet_calls w + ?k"
       "sleeps ?w1 = sleeps w @ replicate (?k - 1) (RETRY_DELAY_MS cfg)"
       "post_logs (database ?w1) = post_logs (database w) @ rows"
       "map attempt_number rows = map (\<lambda>j. 1 + int j) [0..<?k]"
       "\<forall>row \<in> set rows. \<not> success row \<and> tweet_id row = None \<and> pl_bot_id row = BOT_NAME cfg"
    unfolding postWithRetry_def by blast
  have len: "length rows = ?k"
    using arg_cong [OF r(5), of length] by simp
  note W = executePost_failed_world [OF nxt r(1)]
  note fr = checkAndGeneratePosts_frame [of cfg sv ?w1]
  from fr obtain new where new: "posts (database (snd (executePost cfg sv w))) = posts (database ?w1) @ new"
    unfolding W by blast
  then have posts: "posts (database (snd (executePost cfg sv w))) = posts (database w) @ new"
    by (simp add: retry_frame1)
  from getNextPost_member [OF nxt] posts
  have p: "p \<in> set (posts (database (snd (executePost cfg sv w))))" "\<not> used p" by simp_all
  have logs: "post_logs (database (snd (executePost cfg sv w))) = post_logs (database w) @ rows"
    unfolding W using fr r(4) by simp
  have calls: "tweet_calls (snd (executePost cfg sv w)) = tweet_calls w + ?k"
    unfolding W using fr r(2) by simp
  have sl: "sleeps (snd (executePost cfg sv w)) = sleeps w @ replicate (?k - 1) (RETRY_DELAY_MS cfg)"
    unfolding W using fr r(3) by simp
  from r(1) calls sl logs len r(5) r(6) posts p show ?thesis by blast
qed

text \<open>
  Claim C6. When every call of the publish client throws, one cycle on the post \<open>p\<close>
  that \<open>getNextPost\<close> returned makes exactly \<open>MAX_RETRIES\<close> calls, appends exactly
  \<open>MAX_RETRIES\<close> rows to \<open>post_logs\<close>, all failures, numbered 1, 2, ... in order,
  sleeps \<open>RETRY_DELAY_MS\<close> between consecutive attempts (the same delay each time,
  \<open>MAX_RETRIES - 1\<close> times), reports failure, and changes no row of \<open>posts\<close>: rows may
  only be appended by the post-cycle check, and \<open>p\<close> is still there, unused.
\<close>

theorem retry_exhausted_leaves_post_unused:
  assumes "\<And>n. isl (fst (postTweet sv n (content p)))"
    and "getNextPost (pick sv) (database w) (botId cfg) = Some p"
  shows "\<not> pr_success (fst (postWithRetry cfg sv (content p) w))
    \<and> tweet_calls (snd (executePost cfg sv w)) = tweet_calls w + nat (MAX_RETRIES cfg)
    \<and> sleeps (snd (executePost cfg sv w)) =
        sleeps w @ replicate (nat (MAX_RETRIES cfg) - 1) (RETRY_DELAY_MS cfg)
    \<and> (\<exists>rows. post_logs (database (snd (executePost cfg sv w))) = post_logs (database w) @ rows
          \<and> length rows = nat (MAX_RETRIES cfg)
          \<and> map attempt_number rows = map (\<lambda>j. 1 + int j) [0..<nat (MAX_RETRIES cfg)]
          \<and> (\<forall>row \<in> set rows. \<not> success row \<and> tweet_id row = None \<and> pl_bot_id row = BOT_NAME cfg))
    \<and> (\<exists>new. posts (database (snd (executePost cfg sv w))) = posts (database w) @ new)
    \<and> p \<in> set (posts (database (snd (executePost cfg sv w)))) \<and> \<not> used p"
  using assms by (rule publish_all_fail)

text \<open>The default configuration (3 retries, 5000 ms) on the one-post database.\<close>

lemma one_post_next:
  "getNextPost pick_first one_post_db ''bot-a'' = Some (example_post 1 ''bot-a'' ''Test post one.'' 5)"
  by (simp add: getNextPost_def oldest_unused_def unused_rows_def one_post_db_def example_post_def
        pick_first_def)

theorem retry_exhausted_leaves_post_unused_witness:
  "tweet_calls (snd (executePost (default_config ''bot-a'') failing_services (world_of one_post_db))) = 3
   \<and> sleeps (snd (executePost (default_config ''bot-a'') failing_services (world_of one_post_db)))
       = [5000, 5000]
   \<and> map attempt_number
        (post_logs (database (snd (executePost (default_config ''bot-a'') failing_services
                                      (world_of one_post_db))))) = [1, 2, 3]
   \<and> example_post 1 ''bot-a'' ''Test post one.'' 5
        \<in> set (posts (database (snd (executePost (default_config ''bot-a'') failing_services
                                        (world_of one_post_db)))))"
proof -
  let ?cfg = "default_config ''bot-a''" and ?p = "example_post 1 ''bot-a'' ''Test post one.'' 5"
  have fail: "\<And>n. isl (fst (postTweet failing_services n (content ?p)))"
    by (simp add: failing_services_def failing_client_def)
  have nxt: "getNextPost (pick failing_services) (database (world_of one_post_db)) (botId ?cfg) = Some ?p"
    using one_post_next by (simp add: failing_services_def world_of_def botId_def default_config_def)
  have three: "nat (MAX_RETRIES ?cfg) = 3" "RETRY_DELAY_MS ?cfg = 5000"
    by (simp_all add: default_config_def)
  have upt: "[0..<3] = [0, 1, 2]" by (simp add: upt_rec)
  from retry_exhausted_leaves_post_unused [OF fail nxt] obtain rows where
    a: "tweet_calls (snd (executePost ?cfg failing_services (world_of one_post_db))) =
          tweet_calls (world_of one_post_db) + 3"
       "sleeps (snd (executePost ?cfg failing_services (world_of one_post_db))) =
          sleeps (world_of one_post_db) @ replicate (3 - 1) 5000"
       "post_logs (database (snd (executePost ?cfg failing_services (world_of one_post_db)))) =
          post_logs (database (world_of one_post_db)) @ rows"
       "map attempt_number rows = map (\<lambda>j. 1 + int j) [0..<3]"
       "?p \<in> set (posts (database (snd (executePost ?cfg failing_services (world_of one_post_db)))))"
    unfolding three by blast
  have r2: "replicate (3 - 1) (5000::int) = [5000, 5000]" by (simp add: numeral_2_eq_2 eval_nat_numeral)
  from a r2 show ?thesis
    by (simp add: world_of_def one_post_db_def upt)
qed

section \<open>The replenishment threshold\<close>

lemma count_bot_after_mark:
  "length (filter (\<lambda>q. bot_id q = b) (map (\<lambda>q. if where_id_and_bot i b' q then set_used t q else q) rows))
     = length (filter (\<lambda>q. bot_id q = b) rows)"
  by (induction rows) simp_all

lemma count_used_after_mark:
  assumes "distinct (map p_id rows)" and "p \<in> set rows" and "bot_id p = b" and "\<not> used p"
  shows "length (filter (\<lambda>q. bot_id q = b \<and> used q)
                  (map (\<lambda>q. if where_id_and_bot (p_id p) b q then set_used t q else q) rows))
         = Suc (length (filter (\<lambda>q. bot_id q = b \<and> used q) rows))"
  using assms(1,2)
proof (induction rows)
  case Nil
  then show ?case by simp
next
  case (Cons q rows)
  show ?case
  proof (cases "q = p")
    case True
    from Cons.prems(1) True have "p_id p \<notin> p_id ` set rows" by simp
    then have "\<forall>r \<in> set rows. \<not> where_id_and_bot (p_id p) b r"
      unfolding where_id_and_bot_def by (metis imageI)
    from map_if_never [OF this, of "set_used t" "\<lambda>_. True"]
    have "map (\<lambda>q. if where_id_and_bot (p_id p) b q then set_used t q else q) rows = rows"
      by simp
    with True assms(3,4) show ?thesis by (simp add: where_id_and_bot_def)
  next
    case False
    with Cons.prems(2) have mem: "p \<in> set rows" by simp
    with Cons.prems(1) have "p_id q \<noteq> p_id p" by force
    then have nohit: "\<not> where_id_and_bot (p_id p) b q" by (simp add: where_id_and_bot_def)
    from Cons.prems(1) have "distinct (map p_id rows)" by simp
    from Cons.IH [OF this mem] nohit show ?thesis by simp
  qed
qed

lemma remaining_after_mark:
  assumes "distinct (map p_id (posts d))" and "p \<in> set (posts d)" and "bot_id p = b" and "\<not> used p"
  shows "remaining (getPostCount (markPostAsUsed d b t (p_id p)) b) = remaining (getPostCount d b) - 1"
  using count_used_after_mark [OF assms, of t] count_bot_after_mark [of b "p_id p" b t "posts d"]
  by (simp add: getPostCount_def Let_def mark_posts)

lemma getPostCount_posts: "posts d = posts d' \<Longrightarrow> getPostCount d b = getPostCount d' b"
  by (simp add: getPostCount_def)

lemma markPostAsUsed_posts_cong:
  "posts d = posts d' \<Longrightarrow> posts (markPostAsUsed d b t i) = posts (markPostAsUsed d' b t i)"
  by (simp add: mark_posts)

lemma executePost_success_world:
  assumes "getNextPost (pick sv) (database w) (botId cfg) = Some p"
    and "pr_success (fst (postWithRetry cfg sv (content p) w))"
  shows "snd (executePost cfg sv w) =
           checkAndGeneratePosts cfg sv
             ((snd (postWithRetry cfg sv (content p) w))
               \<lparr> database := markPostAsUsed (database (snd (postWithRetry cfg sv (content p) w)))
                    (botId cfg) (clock (snd (postWithRetry cfg sv (content p) w)) div 1000) (p_id p) \<rparr>)"
  using assms(2) by (simp add: executePost_Some [OF assms(1)])

lemma executePost_success_replenishment:
  assumes ids: "distinct (map p_id (posts (database w)))"
    and nxt: "getNextPost (pick sv) (database w) (botId cfg) = Some p"
    and succ: "pr_success (fst (postWithRetry cfg sv (content p) w))"
  shows "generate_calls (snd (executePost cfg sv w)) =
           generate_calls w +
             (if remaining (getPostCount (database w) (botId cfg)) - 1 \<le> REPLENISHMENT_THRESHOLD cfg
              then 1 else 0)"
proof -
  let ?w1 = "snd (postWithRetry cfg sv (content p) w)"
  let ?t = "clock ?w1 div 1000"
  let ?w2 = "?w1\<lparr> database := markPostAsUsed (database ?w1) (botId cfg) ?t (p_id p) \<rparr>"
  have same: "posts (database ?w1) = posts (database w)" by (rule retry_frame1)
  from getNextPost_member [OF nxt] have p: "p \<in> set (posts (database w))" "bot_id p = botId cfg" "\<not> used p"
    by simp_all
  from ids p same have
    "remaining (getPostCount (markPostAsUsed (database ?w1) (botId cfg) ?t (p_id p)) (botId cfg))
       = remaining (getPostCount (database ?w1) (botId cfg)) - 1"
    by (intro remaining_after_mark) simp_all
  also have "getPostCount (database ?w1) (botId cfg) = getPostCount (database w) (botId cfg)"
    by (rule getPostCount_posts [OF same])
  finally have rem: "remaining (getPostCount (database ?w2) (botId cfg))
       = remaining (getPostCount (database w) (botId cfg)) - 1"
    by simp
  have g: "generate_calls ?w2 = generate_calls w" by (simp add: retry_frame1)
  from checkAndGeneratePosts_frame [of cfg sv ?w2]
  have "generate_calls (checkAndGeneratePosts cfg sv ?w2) =
       generate_calls ?w2 +
         (if remaining (getPostCount (database ?w2) (botId cfg)) \<le> REPLENISHMENT_THRESHOLD cfg
          then 1 else 0)"
    by blast
  then show ?thesis
    unfolding executePost_success_world [OF nxt succ] rem g .
qed

text \<open>
  Claim C3, as the code has it. The post-cycle check calls \<open>generatePosts\<close> exactly
  when the remaining count it reads is at most \<open>REPLENISHMENT_THRESHOLD\<close>. It reads the
  count after the post was marked used, so after a successful publish cycle
  \<open>generatePosts\<close> is called exactly when the count before the cycle, less one, is at
  most the threshold. With the default 50: it is called for 50 posts before the cycle
  (49 after) and also for 51 (50 after, and 50 \<le> 50); 52 is the first count for which
  it is not called.
\<close>

theorem replenishment_after_successful_publish:
  assumes "distinct (map p_id (posts (database w)))"
    and "getNextPost (pick sv) (database w) (botId cfg) = Some p"
    and "pr_success (fst (postWithRetry cfg sv (content p) w))"
  shows "generate_calls (snd (executePost cfg sv w)) =
           generate_calls w +
             (if remaining (getPostCount (database w) (botId cfg)) - 1 \<le> REPLENISHMENT_THRESHOLD cfg
              then 1 else 0)
       \<and> generate_calls (checkAndGeneratePosts cfg sv w) =
           generate_calls w +
             (if remaining (getPostCount (database w) (botId cfg)) \<le> REPLENISHMENT_THRESHOLD cfg
              then 1 else 0)"
  using executePost_success_replenishment [OF assms] checkAndGeneratePosts_frame [of cfg sv w]
  by blast

text \<open>The database with \<open>n\<close> unused posts of \<open>bot-a\<close>.\<close>

lemma many_posts_rows:
  "map p_id (posts (many_posts_db n)) = [1..<Suc n]"
  "filter (\<lambda>p. bot_id p = ''bot-a'') (posts (many_posts_db n)) = posts (many_posts_db n)"
  "filter (\<lambda>p. bot_id p = ''bot-a'' \<and> used p) (posts (many_posts_db n)) = []"
  "filter (\<lambda>p. bot_id p = ''bot-a'' \<and> \<not> used p) (posts (many_posts_db n)) = posts (many_posts_db n)"
  "length (posts (many_posts_db n)) = n"
  by (simp_all add: many_posts_db_def example_post_def comp_def filter_map del: upt_Suc)

lemma many_posts_remaining: "remaining (getPostCount (many_posts_db n) ''bot-a'') = int n"
  by (simp add: getPostCount_def Let_def many_posts_rows)

lemma many_posts_next:
  assumes "0 < n"
  shows "\<exists>p. getNextPost pk (many_posts_db n) ''bot-a'' = Some p"
proof -
  have "unused_rows (many_posts_db n) ''bot-a'' = posts (many_posts_db n)"
    by (simp add: unused_rows_def many_posts_rows)
  with assms many_posts_rows(5) [of n] have "unused_rows (many_posts_db n) ''bot-a'' \<noteq> []"
    by auto
  then have "getNextPost pk (many_posts_db n) ''bot-a'' \<noteq> None"
    by (simp add: getNextPost_None_iff)
  then show ?thesis by blast
qed

lemma stub_success:
  "pr_success (fst (postWithRetry (default_config b) stub_services body (world_of d)))"
  by (simp add: postWithRetry_def retry_ok [where tid = "''ext-123''" and rt = 120]
        default_config_def stub_services_def succeeding_client_def)

lemma many_posts_cycle:
  assumes "0 < n"
  shows "generate_calls (snd (executePost (default_config ''bot-a'') stub_services (world_of (many_posts_db n))))
          = (if int n - 1 \<le> 50 then 1 else 0)"
proof -
  let ?cfg = "default_config ''bot-a''" and ?w = "world_of (many_posts_db n)"
  have b: "botId ?cfg = ''bot-a''" by (simp add: botId_def default_config_def)
  have d: "database ?w = many_posts_db n" "generate_calls ?w = 0" by (simp_all add: world_of_def)
  from many_posts_next [OF assms, of "pick stub_services"] obtain p where
    "getNextPost (pick stub_services) (many_posts_db n) ''bot-a'' = Some p" by blast
  then have nxt: "getNextPost (pick stub_services) (database ?w) (botId ?cfg) = Some p"
    by (simp add: b d)
  have ids: "distinct (map p_id (posts (database ?w)))"
    by (simp add: d many_posts_rows del: upt_Suc)
  have th: "REPLENISHMENT_THRESHOLD ?cfg = 50" by (simp add: default_config_def)
  from executePost_success_replenishment [OF ids nxt stub_success]
  show ?thesis unfolding b d th many_posts_remaining by simp
qed

text \<open>
  Claim C3 as stated fails at 51: with 51 unused posts before a successful cycle and the
  default threshold, \<open>generatePosts\<close> is called.
\<close>

theorem replenishment_at_51_remaining:
  "remaining (getPostCount (many_posts_db 51) ''bot-a'') = 51
   \<and> REPLENISHMENT_THRESHOLD (default_config ''bot-a'') = 50
   \<and> generate_calls (world_of (many_posts_db 51)) = 0
   \<and> generate_calls (snd (executePost (default_config ''bot-a'') stub_services
                             (world_of (many_posts_db 51)))) = 1"
  using many_posts_cycle [of 51]
  by (simp add: many_posts_remaining default_config_def world_of_def)


text \<open>The theorem at 50 posts before the cycle (called) and at 52 (not called).\<close>

theorem replenishment_after_successful_publish_witness:
  "generate_calls (snd (executePost (default_config ''bot-a'') stub_services
                          (world_of (many_posts_db 50)))) = 1
   \<and> generate_calls (snd (executePost (default_config ''bot-a'') stub_services
                             (world_of (many_posts_db 52)))) = 0"
proof -
  let ?cfg = "default_config ''bot-a''"
  have b: "botId ?cfg = ''bot-a''" by (simp add: botId_def default_config_def)
  have th: "REPLENISHMENT_THRESHOLD ?cfg = 50" by (simp add: default_config_def)
  have cyc: "generate_calls (snd (executePost ?cfg stub_services (world_of (many_posts_db n))))
          = (if int n - 1 \<le> 50 then 1 else 0)" if "0 < n" for n
  proof -
    let ?w = "world_of (many_posts_db n)"
    have d: "database ?w = many_posts_db n" "generate_calls ?w = 0" by (simp_all add: world_of_def)
    from many_posts_next [OF that, of "pick stub_services"] obtain p where
      "getNextPost (pick stub_services) (many_posts_db n) ''bot-a'' = Some p" by blast
    then have nxt: "getNextPost (pick stub_services) (database ?w) (botId ?cfg) = Some p"
      by (simp add: b d)
    have ids: "distinct (map p_id (posts (database ?w)))"
      by (simp add: d many_posts_rows del: upt_Suc)
    from replenishment_after_successful_publish [OF ids nxt stub_success, THEN conjunct1]
    show ?thesis unfolding b d th many_posts_remaining by simp
  qed
  from cyc [of 50] cyc [of 52] show ?thesis by simp
qed

section \<open>One cycle on a single post\<close>

lemma single_next:
  assumes "posts d = [p]" and "bot_id p = b" and "\<not> used p"
  shows "getNextPost pk d b = Some p"
  using assms by (simp add: getNextPost_def oldest_unused_def unused_rows_def)

lemma single_mark:
  assumes "posts d = [p]" and "bot_id p = b" and "\<not> used p" and "bot_stats d = [s]" and "bs_bot_id s = b"
  shows "posts (markPostAsUsed d b t (p_id p)) = [set_used t p]"
    and "bot_stats (markPostAsUsed d b t (p_id p)) =
           [s\<lparr> used_posts := used_posts s + 1, remaining_posts := remaining_posts s - 1,
               last_post_at := Some t, bs_updated_at := t \<rparr>]"
  using assms
  by (simp_all add: markPostAsUsed_def where_id_and_bot_def update_bot_stats_on_post_used_def)

lemma single_count:
  assumes "posts d = [q]" and "bot_id q = b" and "used q"
  shows "remaining (getPostCount d b) = 0"
  using assms by (simp add: getPostCount_def)

lemma generatePosts_own_rows:
  assumes own: "\<forall>p \<in> set (posts (database w)). bot_id p = botId cfg"
  shows "fst (generatePosts cfg sv w) = None
     \<and> (\<exists>new. posts (database (snd (generatePosts cfg sv w))) = posts (database w) @ new
            \<and> (\<forall>p \<in> set new. bot_id p = botId cfg \<and> \<not> used p))
     \<and> bot_stats (database (snd (generatePosts cfg sv w))) =
          replenish_bot_stats (botId cfg) (clock w div 1000) 2016 (bot_stats (database w))
     \<and> post_logs (database (snd (generatePosts cfg sv w))) = post_logs (database w)"
proof -
  from generateAllPosts_2016 [of "topicPosts sv"] obtain batch where
    batch: "generateAllPosts (topicPosts sv) = Inr batch" "length batch = 2016" by blast
  from storePosts_loop_own_rows [OF own, of "sha256 sv" "clock w div 1000" batch] obtain d where
    loop: "storePosts_loop (sha256 sv) (botId cfg) (clock w div 1000) batch (database w) = Inr d"
    by blast
  then have st: "storePosts (sha256 sv) (botId cfg) (clock w div 1000) (database w) batch = Inr d"
    by (simp add: storePosts_def)
  from storePosts_loop_grows [OF loop] obtain new where
    new: "posts d = posts (database w) @ new" "\<forall>p \<in> set new. bot_id p = botId cfg \<and> \<not> used p" by blast
  from storePosts_loop_other_tables [OF loop] have other:
    "bot_stats d = bot_stats (database w)" "post_logs d = post_logs (database w)" by simp_all
  show ?thesis
    unfolding generatePosts_ok [OF batch(1) st] using new other batch(2) by simp
qed

lemma executePost_single_post:
  assumes one: "posts (database w) = [p]" and own: "bot_id p = botId cfg" and unused: "\<not> used p"
    and stats: "bot_stats (database w) = [s]" and sb: "bs_bot_id s = botId cfg"
    and s0: "used_posts s = 0" and s1: "remaining_posts s = 1"
    and logs: "post_logs (database w) = []"
    and retries: "1 \<le> MAX_RETRIES cfg"
    and client: "postTweet sv (tweet_calls w) (content p) = (Inr ''ext-123'', rt)"
  shows "fst (executePost cfg sv w) = None
    \<and> (\<exists>new. posts (database (snd (executePost cfg sv w))) =
                set_used ((clock w + rt) div 1000) p # new
           \<and> (\<forall>q \<in> set new. \<not> used q))
    \<and> post_logs (database (snd (executePost cfg sv w))) =
         [\<lparr> pl_bot_id = BOT_NAME cfg, pl_post_id = None, attempt_number = 1,
            success = True, tweet_id = Some ''ext-123'', error_message = None,
            response_time_ms = Some rt, pl_created_at = (clock w + rt) div 1000 \<rparr>]
    \<and> map used_posts (bot_stats (database (snd (executePost cfg sv w)))) = [1]
    \<and> map remaining_posts (bot_stats (database (snd (executePost cfg sv w)))) =
         [if 0 \<le> REPLENISHMENT_THRESHOLD cfg then 2016 else 0]"
proof -
  let ?b = "botId cfg" and ?t = "(clock w + rt) div 1000"
  have nxt: "getNextPost (pick sv) (database w) ?b = Some p"
    by (rule single_next [OF one own unused])
  let ?w1 = "log_success cfg ''ext-123'' rt (w\<lparr> clock := clock w + rt, tweet_calls := Suc (tweet_calls w) \<rparr>)"
  have pw: "postWithRetry cfg sv (content p) w =
      (\<lparr> pr_success = True, pr_tweet_id = Some ''ext-123'', pr_error = None \<rparr>, ?w1)"
    unfolding postWithRetry_def by (rule retry_ok [OF retries client])
  let ?d2 = "markPostAsUsed (database ?w1) ?b ?t (p_id p)"
  let ?w2 = "?w1\<lparr> database := ?d2 \<rparr>"
  have ex: "executePost cfg sv w = (None, checkAndGeneratePosts cfg sv ?w2)"
    unfolding executePost_Some [OF nxt] pw by simp
  have d1: "posts (database ?w1) = [p]" "bot_stats (database ?w1) = [s]"
    using one stats by simp_all
  let ?s2 = "s\<lparr> used_posts := used_posts s + 1, remaining_posts := remaining_posts s - 1,
               last_post_at := Some ?t, bs_updated_at := ?t \<rparr>"
  have p2: "posts ?d2 = [set_used ?t p]"
    by (rule single_mark(1) [OF d1(1) own unused d1(2) sb])
  have s2: "bot_stats ?d2 = [?s2]"
    by (rule single_mark(2) [OF d1(1) own unused d1(2) sb])
  have l2: "post_logs ?d2 =
         [\<lparr> pl_bot_id = BOT_NAME cfg, pl_post_id = None, attempt_number = 1,
            success = True, tweet_id = Some ''ext-123'', error_message = None,
            response_time_ms = Some rt, pl_created_at = ?t \<rparr>]"
    using logs by (simp add: mark_other_fields)
  have rem: "remaining (getPostCount (database ?w2) ?b) = 0"
    using p2 own by (intro single_count [where q = "set_used ?t p"]) simp_all
  show ?thesis
  proof (cases "0 \<le> REPLENISHMENT_THRESHOLD cfg")
    case True
    with rem have ck: "checkAndGeneratePosts cfg sv ?w2 = snd (generatePosts cfg sv ?w2)"
      by (simp add: checkAndGeneratePosts_def)
    have own2: "\<forall>q \<in> set (posts (database ?w2)). bot_id q = ?b"
      using p2 own by simp
    from generatePosts_own_rows [OF own2, of sv] obtain new where
      g: "posts (database (snd (generatePosts cfg sv ?w2))) = posts (database ?w2) @ new"
         "\<forall>q \<in> set new. bot_id q = ?b \<and> \<not> used q"
         "bot_stats (database (snd (generatePosts cfg sv ?w2))) =
            replenish_bot_stats ?b (clock ?w2 div 1000) 2016 (bot_stats (database ?w2))"
         "post_logs (database (snd (generatePosts cfg sv ?w2))) = post_logs (database ?w2)"
      by blast
    have a: "posts (database (snd (executePost cfg sv w))) = set_used ?t p # new"
      unfolding ex using g(1) p2 by (simp add: ck)
    have b: "post_logs (database (snd (executePost cfg sv w))) =
         [\<lparr> pl_bot_id = BOT_NAME cfg, pl_post_id = None, attempt_number = 1,
            success = True, tweet_id = Some ''ext-123'', error_message = None,
            response_time_ms = Some rt, pl_created_at = ?t \<rparr>]"
      unfolding ex using g(4) l2 by (simp add: ck)
    have c: "bot_stats (database (snd (executePost cfg sv w))) =
               replenish_bot_stats ?b (clock ?w2 div 1000) 2016 [?s2]"
      unfolding ex using g(3) s2 by (simp add: ck)
    have c1: "map used_posts (bot_stats (database (snd (executePost cfg sv w)))) = [1]"
      unfolding c using sb s0 by (simp add: replenish_bot_stats_def)
    have c2: "map remaining_posts (bot_stats (database (snd (executePost cfg sv w)))) = [2016]"
      unfolding c using sb s1 by (simp add: replenish_bot_stats_def)
    from a b c1 c2 g(2) True show ?thesis by (simp add: ex)
  next
    case False
    with rem have ck: "checkAndGeneratePosts cfg sv ?w2 = ?w2"
      by (simp add: checkAndGeneratePosts_def)
    have a: "posts (database (snd (executePost cfg sv w))) = set_used ?t p # []"
      unfolding ex using p2 by (simp add: ck)
    have b: "post_logs (database (snd (executePost cfg sv w))) =
         [\<lparr> pl_bot_id = BOT_NAME cfg, pl_post_id = None, attempt_number = 1,
            success = True, tweet_id = Some ''ext-123'', error_message = None,
            response_time_ms = Some rt, pl_created_at = ?t \<rparr>]"
      unfolding ex using l2 by (simp add: ck)
    have c: "bot_stats (database (snd (executePost cfg sv w))) = [?s2]"
      unfolding ex using s2 by (simp add: ck)
    have c1: "map used_posts (bot_stats (database (snd (executePost cfg sv w)))) = [1]"
      unfolding c using s0 by simp
    have c2: "map remaining_posts (bot_stats (database (snd (executePost cfg sv w)))) = [0]"
      unfolding c using s1 by simp
    from a b c1 c2 False show ?thesis by (simp add: ex)
  qed
qed


text \<open>
  Claim C1, as the code has it. The store holds exactly one post, unused, of the bot; its
  \<open>bot_stats\<close> row says 0 used and 1 remaining; the log is empty; the publish client
  returns \<open>ext-123\<close> at the first call. After one \<open>executePost\<close>: the post is the
  first row, with \<open>used\<close> set and \<open>used_at\<close> the time of the update; \<open>post_logs\<close> has
  exactly one row, a success with tweet id \<open>ext-123\<close> and attempt number 1;
  \<open>used_posts\<close> is 1 (the trigger runs with the \<open>UPDATE\<close>). The trigger brings
  \<open>remaining_posts\<close> to 0, but the cycle does not end there: the post-cycle check
  finds 0 remaining, which is at most any threshold that is not negative, and
  \<open>generatePosts\<close> adds the size of its batch, 2,016, to \<open>remaining_posts\<close>. It is 0
  at the end of the cycle only under a negative threshold.
\<close>

theorem publish_cycle_single_post:
  assumes "posts (database w) = [p]" and "bot_id p = botId cfg" and "\<not> used p"
    and "bot_stats (database w) = [s]" and "bs_bot_id s = botId cfg"
    and "used_posts s = 0" and "remaining_posts s = 1"
    and "post_logs (database w) = []"
    and "1 \<le> MAX_RETRIES cfg"
    and "postTweet sv (tweet_calls w) (content p) = (Inr ''ext-123'', rt)"
  shows "fst (executePost cfg sv w) = None
    \<and> (\<exists>new. posts (database (snd (executePost cfg sv w))) =
                set_used ((clock w + rt) div 1000) p # new
           \<and> (\<forall>q \<in> set new. \<not> used q))
    \<and> post_logs (database (snd (executePost cfg sv w))) =
         [\<lparr> pl_bot_id = BOT_NAME cfg, pl_post_id = None, attempt_number = 1,
            success = True, tweet_id = Some ''ext-123'', error_message = None,
            response_time_ms = Some rt, pl_created_at = (clock w + rt) div 1000 \<rparr>]
    \<and> map used_posts (bot_stats (database (snd (executePost cfg sv w)))) = [1]
    \<and> map remaining_posts (bot_stats (database (snd (executePost cfg sv w)))) =
         [if 0 \<le> REPLENISHMENT_THRESHOLD cfg then 2016 else 0]"
  using assms by (rule executePost_single_post)

text \<open>The scenario of the specification: one post, default configuration.\<close>

lemma one_post_scenario:
  "posts (database (world_of one_post_db)) = [example_post 1 ''bot-a'' ''Test post one.'' 5]"
  "bot_id (example_post 1 ''bot-a'' ''Test post one.'' 5) = botId (default_config ''bot-a'')"
  "\<not> used (example_post 1 ''bot-a'' ''Test post one.'' 5)"
  "bot_stats (database (world_of one_post_db)) = [example_stats ''bot-a'' 1 0]"
  "bs_bot_id (example_stats ''bot-a'' 1 0) = botId (default_config ''bot-a'')"
  "used_posts (example_stats ''bot-a'' 1 0) = 0"
  "remaining_posts (example_stats ''bot-a'' 1 0) = 1"
  "post_logs (database (world_of one_post_db)) = []"
  "1 \<le> MAX_RETRIES (default_config ''bot-a'')"
  "postTweet stub_services (tweet_calls (world_of one_post_db))
     (content (example_post 1 ''bot-a'' ''Test post one.'' 5)) = (Inr ''ext-123'', 120)"
  by (simp_all add: world_of_def one_post_db_def example_post_def example_stats_def botId_def
        default_config_def stub_services_def succeeding_client_def)

text \<open>
  Claim C1 as stated fails: with the default configuration the cycle ends with
  \<open>remaining_posts = 2016\<close>, not 0.
\<close>

theorem publish_cycle_replenishes_stats:
  "map used_posts (bot_stats (database (snd (executePost (default_config ''bot-a'') stub_services
                                              (world_of one_post_db))))) = [1]
   \<and> map remaining_posts (bot_stats (database (snd (executePost (default_config ''bot-a'') stub_services
                                                   (world_of one_post_db))))) = [2016]"
proof -
  have th: "0 \<le> REPLENISHMENT_THRESHOLD (default_config ''bot-a'')"
    by (simp add: default_config_def)
  from executePost_single_post [OF one_post_scenario] th show ?thesis by simp
qed

theorem publish_cycle_single_post_witness:
  "map used (posts (database (snd (executePost (default_config ''bot-a'') stub_services
                                      (world_of one_post_db))))) ! 0 = True
   \<and> map used_at (posts (database (snd (executePost (default_config ''bot-a'') stub_services
                                         (world_of one_post_db))))) ! 0 = Some 60
   \<and> map (\<lambda>l. (success l, tweet_id l, attempt_number l))
        (post_logs (database (snd (executePost (default_config ''bot-a'') stub_services
                                      (world_of one_post_db))))) = [(True, Some ''ext-123'', 1)]
   \<and> map used_posts (bot_stats (database (snd (executePost (default_config ''bot-a'') stub_services
                                                (world_of one_post_db))))) = [1]"
proof -
  note t = publish_cycle_single_post [OF one_post_scenario]
  from t obtain new where
    p: "posts (database (snd (executePost (default_config ''bot-a'') stub_services (world_of one_post_db))))
         = set_used ((clock (world_of one_post_db) + 120) div 1000)
             (example_post 1 ''bot-a'' ''Test post one.'' 5) # new"
    by blast
  have ts: "(clock (world_of one_post_db) + 120) div 1000 = 60" by (simp add: world_of_def)
  from t p ts show ?thesis by simp
qed

end
